theory Spec2Isabelle
  imports Complex_Main "HOL-Library.List_Lexorder" "HOL-Library.Char_ord" "HOL-Library.Sublist"
begin

section \<open>Values thrown and JavaScript truthiness\<close>

text \<open>
  A rejected promise or a \<^verbatim>\<open>throw\<close> carries a value. The code only ever asks whether that
  value is an \<^verbatim>\<open>Error\<close> and, if so, reads its \<^verbatim>\<open>message\<close>.
\<close>

datatype thrown = Error (message: string) | NonError

text \<open>The idiom \<^verbatim>\<open>error instanceof Error ? error.message : fallback\<close>.\<close>

definition messageOr :: "string \<Rightarrow> thrown \<Rightarrow> string" where
  "messageOr fallback e = (case e of Error m \<Rightarrow> m | NonError \<Rightarrow> fallback)"

text \<open>
  An optional string used as a condition (\<^verbatim>\<open>if (lastError)\<close>, \<^verbatim>\<open>item.lastError &&\<close>):
  \<^verbatim>\<open>undefined\<close> and the empty string are falsy.
\<close>

definition truthy :: "string option \<Rightarrow> bool" where
  "truthy v = (case v of None \<Rightarrow> False | Some s \<Rightarrow> s \<noteq> [])"

section \<open>The durable local store (db.ts)\<close>

record Location =
  latitude :: real
  longitude :: real

text \<open>\<^verbatim>\<open>ReportFormData\<close>; the optional \<^verbatim>\<open>photo\<close> file is never read by the queue.\<close>

record ReportFormData =
  category :: string
  description :: string
  location :: "Location option"
  address :: "string option"

datatype QueueItemType = CREATE_REPORT | UPDATE_REPORT

text \<open>
  \<^verbatim>\<open>OfflineQueueItem\<close>. The fields \<^verbatim>\<open>id\<close>, \<^verbatim>\<open>type\<close> and \<^verbatim>\<open>data\<close> are named
  \<open>itemId\<close>, \<open>itemType\<close> and \<open>itemData\<close> here. \<^verbatim>\<open>timestamp\<close> is \<^verbatim>\<open>Date.now()\<close>, in
  milliseconds.
\<close>

record OfflineQueueItem =
  itemId :: string
  itemType :: QueueItemType
  itemData :: ReportFormData
  timestamp :: int
  retryCount :: nat
  lastError :: "string option"

text \<open>\<^verbatim>\<open>SyncStatus\<close>, stored under the single key \<^verbatim>\<open>last_sync\<close>.\<close>

record SyncStatus =
  sync_timestamp :: int
  success :: bool
  pending_count :: nat

text \<open>
  The IndexedDB database: the object store \<^verbatim>\<open>offlineQueue\<close> (key path \<^verbatim>\<open>id\<close>), held as
  the list of its records in key order, which is the order \<^verbatim>\<open>getAll()\<close> returns; the
  object store \<^verbatim>\<open>syncStatus\<close>; \<open>unavailable\<close>, the value every operation rejects with
  while the database cannot be opened or a transaction cannot be run; and
  \<open>constraintError\<close>, the value an operation rejects with when its request violates the
  key constraint (the browser's \<^verbatim>\<open>DOMException\<close> passed on by \<^verbatim>\<open>request.onerror\<close>, or the
  error made by \<^verbatim>\<open>transaction.onerror\<close>, whichever settles the promise first).
\<close>

record Database =
  offlineQueue :: "OfflineQueueItem list"
  syncStatus :: "SyncStatus option"
  unavailable :: "thrown option"
  constraintError :: thrown

subsection \<open>Object store primitives\<close>

definition os_get :: "string \<Rightarrow> OfflineQueueItem list \<Rightarrow> OfflineQueueItem option" where
  "os_get k xs = find (\<lambda>x. itemId x = k) xs"

definition os_delete :: "string \<Rightarrow> OfflineQueueItem list \<Rightarrow> OfflineQueueItem list" where
  "os_delete k xs = filter (\<lambda>x. itemId x \<noteq> k) xs"

definition os_put :: "OfflineQueueItem \<Rightarrow> OfflineQueueItem list \<Rightarrow> OfflineQueueItem list" where
  "os_put x xs = insort_key itemId x (os_delete (itemId x) xs)"

text \<open>
  \<^verbatim>\<open>add\<close> fails when the key is already present; the first argument is the value the
  failure is reported with.
\<close>

definition os_add ::
  "thrown \<Rightarrow> OfflineQueueItem \<Rightarrow> OfflineQueueItem list \<Rightarrow> thrown + OfflineQueueItem list" where
  "os_add violation x xs =
     (if os_get (itemId x) xs = None then Inr (insort_key itemId x xs)
      else Inl violation)"

text \<open>\<^verbatim>\<open>withDB\<close> and \<^verbatim>\<open>withTransaction\<close>: the operation runs only on a reachable database.\<close>

definition withDB :: "Database \<Rightarrow> (Database \<Rightarrow> thrown + 'a) \<Rightarrow> thrown + 'a" where
  "withDB d operation = (case unavailable d of Some e \<Rightarrow> Inl e | None \<Rightarrow> operation d)"

subsection \<open>offlineQueueDB and syncStatusDB\<close>

text \<open>
  \<^verbatim>\<open>offlineQueueDB.addToQueue\<close>. The generated id
  (\<^verbatim>\<open>queue_${Date.now()}_${random}\<close>) and the time are inputs.
\<close>

definition offlineQueueDB_addToQueue ::
  "string \<Rightarrow> int \<Rightarrow> QueueItemType \<Rightarrow> ReportFormData \<Rightarrow> Database \<Rightarrow> thrown + (string \<times> Database)" where
  "offlineQueueDB_addToQueue newId now ty dat d =
     (let queueItem = \<lparr>itemId = newId, itemType = ty, itemData = dat, timestamp = now,
                        retryCount = 0, lastError = None\<rparr>
      in withDB d (\<lambda>d.
           case os_add (constraintError d) queueItem (offlineQueue d) of
             Inl e \<Rightarrow> Inl e
           | Inr q \<Rightarrow> Inr (itemId queueItem, d\<lparr>offlineQueue := q\<rparr>)))"

text \<open>
  \<^verbatim>\<open>offlineQueueDB.getQueueItems\<close>: \<^verbatim>\<open>getAll()\<close>, then
  \<^verbatim>\<open>items.sort((a, b) => a.timestamp - b.timestamp)\<close>, a stable sort.
\<close>

definition offlineQueueDB_getQueueItems :: "Database \<Rightarrow> thrown + OfflineQueueItem list" where
  "offlineQueueDB_getQueueItems d = withDB d (\<lambda>d. Inr (sort_key timestamp (offlineQueue d)))"

definition offlineQueueDB_removeFromQueue :: "string \<Rightarrow> Database \<Rightarrow> thrown + Database" where
  "offlineQueueDB_removeFromQueue k d =
     withDB d (\<lambda>d. Inr (d\<lparr>offlineQueue := os_delete k (offlineQueue d)\<rparr>))"

text \<open>
  \<^verbatim>\<open>offlineQueueDB.updateQueueItem\<close>: the retry count is always written, the error only
  when the argument is truthy; a missing record rejects.
\<close>

definition offlineQueueDB_updateQueueItem ::
  "string \<Rightarrow> nat \<Rightarrow> string option \<Rightarrow> Database \<Rightarrow> thrown + Database" where
  "offlineQueueDB_updateQueueItem k rc err d =
     withDB d (\<lambda>d.
       case os_get k (offlineQueue d) of
         Some item \<Rightarrow>
           Inr (d\<lparr>offlineQueue :=
                  os_put (item\<lparr>retryCount := rc,
                                lastError := (if truthy err then err else lastError item)\<rparr>)
                         (offlineQueue d)\<rparr>)
       | None \<Rightarrow> Inl (Error (''Queue item '' @ k @ '' not found'')))"

definition offlineQueueDB_clearQueue :: "Database \<Rightarrow> thrown + Database" where
  "offlineQueueDB_clearQueue d = withDB d (\<lambda>d. Inr (d\<lparr>offlineQueue := []\<rparr>))"

definition syncStatusDB_updateSyncStatus :: "SyncStatus \<Rightarrow> Database \<Rightarrow> thrown + Database" where
  "syncStatusDB_updateSyncStatus st d = withDB d (\<lambda>d. Inr (d\<lparr>syncStatus := Some st\<rparr>))"

definition syncStatusDB_getSyncStatus :: "Database \<Rightarrow> thrown + SyncStatus option" where
  "syncStatusDB_getSyncStatus d = withDB d (\<lambda>d. Inr (syncStatus d))"

section \<open>The offline queue manager (offlineQueue.ts)\<close>

definition MAX_RETRIES :: nat where
  "MAX_RETRIES = 3"

definition MAX_QUEUE_SIZE :: nat where
  "MAX_QUEUE_SIZE = 100"

text \<open>
  The events of the manager with the payload fields the code puts in them:
  \<^verbatim>\<open>queue-updated\<close> with action, queue id and total; \<^verbatim>\<open>sync-completed\<close> with success and
  failure count; \<^verbatim>\<open>sync-failed\<close> with success count, failure count and errors when the
  loop has run to its end, or with the message of the error that ended the cycle;
  \<^verbatim>\<open>item-synced\<close> with the queue id; \<^verbatim>\<open>item-failed\<close> with the queue id and the message.
\<close>

datatype QueueEvent =
    QueueUpdated string "string option" nat
  | SyncStarted
  | SyncCompleted nat nat
  | SyncFailed nat nat "string list"
  | SyncFailedError string
  | ItemSynced string
  | ItemFailed string string

text \<open>
  The state the manager works on: the database, its own fields \<^verbatim>\<open>isProcessing\<close> and
  \<^verbatim>\<open>syncTimeoutId\<close> (here: whether a timer is armed), and the environment it reads:
  \<^verbatim>\<open>navigator.onLine\<close> and \<^verbatim>\<open>Date.now()\<close>. Two traces record what it does to the
  outside: \<open>emitted\<close>, the events passed to \<^verbatim>\<open>emit\<close>, and \<open>attempts\<close>, the ids of the items
  for which \<^verbatim>\<open>reportsApi.submitReport\<close> was called, both oldest first.
\<close>

record Manager =
  db :: Database
  isProcessing :: bool
  onLine :: bool
  syncTimeoutId :: bool
  clock :: int
  emitted :: "QueueEvent list"
  attempts :: "string list"

text \<open>\<^verbatim>\<open>ReportSubmission\<close>, as built by \<^verbatim>\<open>processQueueItem\<close>.\<close>

record ReportSubmission =
  sub_category :: string
  sub_description :: string
  sub_location :: "Location option"
  sub_address :: "string option"

text \<open>
  The remote interface \<^verbatim>\<open>reportsApi.submitReport\<close>: the outcome of its \<open>n\<close>-th call, either
  the id of the created report or the value it rejects with.
\<close>

type_synonym RemoteApi = "nat \<Rightarrow> ReportSubmission \<Rightarrow> thrown + string"

definition emit :: "QueueEvent \<Rightarrow> Manager \<Rightarrow> Manager" where
  "emit ev s = s\<lparr>emitted := emitted s @ [ev]\<rparr>"

definition isOnline :: "Manager \<Rightarrow> bool" where
  "isOnline s = onLine s"

definition scheduleProcessing :: "Manager \<Rightarrow> Manager" where
  "scheduleProcessing s = s\<lparr>syncTimeoutId := True\<rparr>"

text \<open>\<^verbatim>\<open>updateSyncStatus\<close> swallows every error.\<close>

definition updateSyncStatus :: "Manager \<Rightarrow> Manager" where
  "updateSyncStatus s =
     (case offlineQueueDB_getQueueItems (db s) of
        Inl e \<Rightarrow> s
      | Inr queueItems \<Rightarrow>
          (case syncStatusDB_updateSyncStatus
                  \<lparr>sync_timestamp = clock s, success = (length queueItems = 0),
                   pending_count = length queueItems\<rparr> (db s) of
             Inl e \<Rightarrow> s
           | Inr d \<Rightarrow> s\<lparr>db := d\<rparr>))"

definition addToQueue :: "string \<Rightarrow> ReportFormData \<Rightarrow> Manager \<Rightarrow> (thrown + string) \<times> Manager" where
  "addToQueue newId reportData s =
     (case offlineQueueDB_getQueueItems (db s) of
        Inl e \<Rightarrow> (Inl e, s)
      | Inr currentItems \<Rightarrow>
          if length currentItems \<ge> MAX_QUEUE_SIZE
          then (Inl (Error ''Queue is full (max 100 items)''), s)
          else
            (case offlineQueueDB_addToQueue newId (clock s) CREATE_REPORT reportData (db s) of
               Inl e \<Rightarrow> (Inl e, s)
             | Inr (queueId, d) \<Rightarrow>
                 let s1 = updateSyncStatus (s\<lparr>db := d\<rparr>);
                     s2 = emit (QueueUpdated ''added'' (Some queueId) (length currentItems + 1)) s1;
                     s3 = (if isOnline s2 then scheduleProcessing s2 else s2)
                 in (Inr queueId, s3)))"

record QueueStatus =
  pending :: nat
  processing :: bool
  lastSync :: "int option"
  errors :: "string list"

definition getQueueStatus :: "Manager \<Rightarrow> QueueStatus" where
  "getQueueStatus s =
     (let failed = \<lparr>pending = 0, processing = False, lastSync = None,
                     errors = [''Failed to get queue status'']\<rparr>
      in case offlineQueueDB_getQueueItems (db s) of
           Inl e \<Rightarrow> failed
         | Inr queueItems \<Rightarrow>
             (case syncStatusDB_getSyncStatus (db s) of
                Inl e \<Rightarrow> failed
              | Inr st \<Rightarrow>
                  \<lparr>pending = length queueItems,
                   processing = isProcessing s,
                   lastSync = map_option sync_timestamp st,
                   errors = take 5 (map (\<lambda>item. the (lastError item))
                                        (filter (\<lambda>item. truthy (lastError item)) queueItems))\<rparr>))"

definition submissionData :: "ReportFormData \<Rightarrow> ReportSubmission" where
  "submissionData reportData =
     \<lparr>sub_category = category reportData, sub_description = description reportData,
      sub_location = location reportData, sub_address = address reportData\<rparr>"

definition typeName :: "QueueItemType \<Rightarrow> string" where
  "typeName ty = (case ty of CREATE_REPORT \<Rightarrow> ''CREATE_REPORT'' | UPDATE_REPORT \<Rightarrow> ''UPDATE_REPORT'')"

text \<open>
  \<^verbatim>\<open>processQueueItem\<close>: \<open>Inl\<close> is the value it throws. The call of the remote interface is
  recorded in \<open>attempts\<close> before its outcome is known.
\<close>

definition processQueueItem :: "RemoteApi \<Rightarrow> OfflineQueueItem \<Rightarrow> Manager \<Rightarrow> (thrown + unit) \<times> Manager" where
  "processQueueItem api item s =
     (if retryCount item \<ge> MAX_RETRIES then
        (case offlineQueueDB_removeFromQueue (itemId item) (db s) of
           Inl e \<Rightarrow> (Inl e, s)
         | Inr d \<Rightarrow> (Inl (Error ''Max retries exceeded''), s\<lparr>db := d\<rparr>))
      else if itemType item = CREATE_REPORT then
        (let s1 = s\<lparr>attempts := attempts s @ [itemId item]\<rparr>
         in case api (length (attempts s)) (submissionData (itemData item)) of
              Inl e \<Rightarrow> (Inl e, s1)
            | Inr report \<Rightarrow>
                (case offlineQueueDB_removeFromQueue (itemId item) (db s1) of
                   Inl e \<Rightarrow> (Inl e, s1)
                 | Inr d \<Rightarrow> (Inr (), s1\<lparr>db := d\<rparr>)))
      else (Inl (Error (''Unsupported queue item type: '' @ typeName (itemType item))), s))"

text \<open>
  The loop \<^verbatim>\<open>for (const item of queueItems)\<close> of \<^verbatim>\<open>processQueue\<close> with its three
  accumulators \<^verbatim>\<open>successCount\<close>, \<^verbatim>\<open>failureCount\<close> and \<^verbatim>\<open>errors\<close>. Each item is the
  snapshot read at the start of the cycle. A rejection of \<^verbatim>\<open>updateQueueItem\<close> happens
  inside the \<^verbatim>\<open>catch\<close> block of the item, so it leaves the loop.
\<close>

fun processItems ::
  "RemoteApi \<Rightarrow> OfflineQueueItem list \<Rightarrow> nat \<times> nat \<times> string list \<Rightarrow> Manager
     \<Rightarrow> (thrown + nat \<times> nat \<times> string list) \<times> Manager" where
  "processItems api [] acc s = (Inr acc, s)"
| "processItems api (item # rest) (successCount, failureCount, errs) s =
     (case processQueueItem api item s of
        (Inr u, s1) \<Rightarrow>
          processItems api rest (successCount + 1, failureCount, errs)
            (emit (ItemSynced (itemId item)) s1)
      | (Inl error, s1) \<Rightarrow>
          (let errorMessage = messageOr ''Unknown error'' error;
               s2 = emit (ItemFailed (itemId item) errorMessage) s1
           in case offlineQueueDB_updateQueueItem (itemId item) (retryCount item + 1)
                     (Some errorMessage) (db s2) of
                Inl e \<Rightarrow> (Inl e, s2)
              | Inr d \<Rightarrow>
                  processItems api rest
                    (successCount, failureCount + 1, errs @ [itemId item @ '': '' @ errorMessage])
                    (s2\<lparr>db := d\<rparr>)))"

text \<open>The \<^verbatim>\<open>try\<close> block of \<^verbatim>\<open>processQueue\<close>, after \<^verbatim>\<open>isProcessing\<close> has been set.\<close>

definition processQueue_try :: "RemoteApi \<Rightarrow> Manager \<Rightarrow> (thrown + unit) \<times> Manager" where
  "processQueue_try api s =
     (case offlineQueueDB_getQueueItems (db s) of
        Inl e \<Rightarrow> (Inl e, s)
      | Inr queueItems \<Rightarrow>
          if length queueItems = 0 then (Inr (), s\<lparr>isProcessing := False\<rparr>)
          else
            (case processItems api queueItems (0, 0, []) s of
               (Inl e, s1) \<Rightarrow> (Inl e, s1)
             | (Inr (successCount, failureCount, errs), s1) \<Rightarrow>
                 let s2 = updateSyncStatus s1
                 in if length errs = 0
                    then (Inr (), emit (SyncCompleted successCount 0) s2)
                    else (Inr (), emit (SyncFailed successCount failureCount errs) s2)))"

text \<open>
  \<^verbatim>\<open>processQueue\<close>: the guard, the \<^verbatim>\<open>try\<close> block, the \<^verbatim>\<open>catch\<close> that turns whatever
  was thrown into a \<^verbatim>\<open>sync-failed\<close> event, and the \<^verbatim>\<open>finally\<close>. The first component of
  the result is how the returned promise settles.
\<close>

definition processQueue :: "RemoteApi \<Rightarrow> Manager \<Rightarrow> (thrown + unit) \<times> Manager" where
  "processQueue api s =
     (if isProcessing s \<or> \<not> isOnline s then (Inr (), s)
      else
        (case processQueue_try api (emit SyncStarted (s\<lparr>isProcessing := True\<rparr>)) of
           (Inr u, s1) \<Rightarrow> (Inr (), s1\<lparr>isProcessing := False\<rparr>)
         | (Inl error, s1) \<Rightarrow>
             (Inr (), (emit (SyncFailedError (messageOr ''Processing failed'' error)) s1)
                        \<lparr>isProcessing := False\<rparr>)))"

text \<open>
  \<^verbatim>\<open>retryFailedItems\<close>: the loop that calls \<^verbatim>\<open>updateQueueItem(item.id, item.retryCount,
  undefined)\<close> on each failed item, then the whole method.
\<close>

fun resetFailedItems :: "OfflineQueueItem list \<Rightarrow> Database \<Rightarrow> thrown + Database" where
  "resetFailedItems [] d = Inr d"
| "resetFailedItems (item # rest) d =
     (case offlineQueueDB_updateQueueItem (itemId item) (retryCount item) None d of
        Inl e \<Rightarrow> Inl e
      | Inr d1 \<Rightarrow> resetFailedItems rest d1)"

definition failedItems :: "OfflineQueueItem list \<Rightarrow> OfflineQueueItem list" where
  "failedItems queueItems =
     filter (\<lambda>item. truthy (lastError item) \<and> retryCount item < MAX_RETRIES) queueItems"

definition retryFailedItems :: "RemoteApi \<Rightarrow> Manager \<Rightarrow> (thrown + unit) \<times> Manager" where
  "retryFailedItems api s =
     (case offlineQueueDB_getQueueItems (db s) of
        Inl e \<Rightarrow> (Inl e, s)
      | Inr queueItems \<Rightarrow>
          if length (failedItems queueItems) = 0 then (Inr (), s)
          else
            (case resetFailedItems (failedItems queueItems) (db s) of
               Inl e \<Rightarrow> (Inl e, s)
             | Inr d \<Rightarrow> processQueue api (s\<lparr>db := d\<rparr>)))"

text \<open>\<^verbatim>\<open>forceSync\<close>: it refuses while offline or while a cycle is running.\<close>

definition forceSync :: "RemoteApi \<Rightarrow> Manager \<Rightarrow> (thrown + unit) \<times> Manager" where
  "forceSync api s =
     (if \<not> isOnline s then (Inl (Error ''Cannot sync while offline''), s)
      else if isProcessing s then (Inl (Error ''Sync already in progress''), s)
      else processQueue api s)"

section \<open>processQueue as a resumable computation\<close>

text \<open>
  \<^verbatim>\<open>processQueue\<close> is an \<^verbatim>\<open>async\<close> function on a single-threaded event loop: it runs
  without interruption up to an \<^verbatim>\<open>await\<close>, and other callbacks (a timer, the \<^verbatim>\<open>online\<close>
  listener, another call of \<^verbatim>\<open>processQueue\<close>) run only while it is suspended there. A
  suspended call is one of the following continuations, named after the promise it
  awaits; they carry the local variables of the call: the current item, the items still
  to come and the three accumulators.
\<close>

datatype Cont =
    AwaitQueueItems
  | AwaitDrop OfflineQueueItem "OfflineQueueItem list" "nat \<times> nat \<times> string list"
  | AwaitSubmit nat OfflineQueueItem "OfflineQueueItem list" "nat \<times> nat \<times> string list"
  | AwaitRemove OfflineQueueItem "OfflineQueueItem list" "nat \<times> nat \<times> string list"
  | AwaitUpdate OfflineQueueItem string "OfflineQueueItem list" "nat \<times> nat \<times> string list"
  | AwaitSyncItems "nat \<times> nat \<times> string list"
  | AwaitSyncStatus SyncStatus "nat \<times> nat \<times> string list"

text \<open>The \<^verbatim>\<open>finally\<close> block; \<open>None\<close> says that the call has returned.\<close>

definition returned :: "Manager \<Rightarrow> Cont option \<times> Manager" where
  "returned s = (None, s\<lparr>isProcessing := False\<rparr>)"

text \<open>The outer \<^verbatim>\<open>catch\<close> block.\<close>

definition failed :: "thrown \<Rightarrow> Manager \<Rightarrow> Cont option \<times> Manager" where
  "failed error s = returned (emit (SyncFailedError (messageOr ''Processing failed'' error)) s)"

text \<open>The code after the loop, once \<^verbatim>\<open>updateSyncStatus\<close> is done.\<close>

definition completed :: "nat \<times> nat \<times> string list \<Rightarrow> Manager \<Rightarrow> Cont option \<times> Manager" where
  "completed acc s =
     (case acc of (successCount, failureCount, errs) \<Rightarrow>
        returned (if length errs = 0 then emit (SyncCompleted successCount 0) s
                  else emit (SyncFailed successCount failureCount errs) s))"

text \<open>
  The \<^verbatim>\<open>catch\<close> block of one item, up to its \<^verbatim>\<open>await offlineQueueDB.updateQueueItem\<close>.
\<close>

definition itemFailed ::
  "thrown \<Rightarrow> OfflineQueueItem \<Rightarrow> OfflineQueueItem list \<Rightarrow> nat \<times> nat \<times> string list \<Rightarrow> Manager
     \<Rightarrow> Cont option \<times> Manager" where
  "itemFailed error item rest acc s =
     (case acc of (successCount, failureCount, errs) \<Rightarrow>
        let errorMessage = messageOr ''Unknown error'' error
        in (Some (AwaitUpdate item errorMessage rest
                    (successCount, failureCount + 1, errs @ [itemId item @ '': '' @ errorMessage])),
            emit (ItemFailed (itemId item) errorMessage) s))"

text \<open>
  The head of the loop: the code from \<^verbatim>\<open>for (const item of queueItems)\<close> to the first
  \<^verbatim>\<open>await\<close> inside \<^verbatim>\<open>processQueueItem\<close>, or past the loop to the first \<^verbatim>\<open>await\<close> of
  \<^verbatim>\<open>updateSyncStatus\<close>.
\<close>

fun nextItem ::
  "OfflineQueueItem list \<Rightarrow> nat \<times> nat \<times> string list \<Rightarrow> Manager \<Rightarrow> Cont option \<times> Manager" where
  "nextItem [] acc s = (Some (AwaitSyncItems acc), s)"
| "nextItem (item # rest) acc s =
     (if retryCount item \<ge> MAX_RETRIES then (Some (AwaitDrop item rest acc), s)
      else if itemType item = CREATE_REPORT then
        (Some (AwaitSubmit (length (attempts s)) item rest acc),
         s\<lparr>attempts := attempts s @ [itemId item]\<rparr>)
      else itemFailed (Error (''Unsupported queue item type: '' @ typeName (itemType item)))
             item rest acc s)"

text \<open>The synchronous start of a call of \<^verbatim>\<open>processQueue\<close>, up to its first \<^verbatim>\<open>await\<close>.\<close>

definition callProcessQueue :: "Manager \<Rightarrow> Cont option \<times> Manager" where
  "callProcessQueue s =
     (if isProcessing s \<or> \<not> isOnline s then (None, s)
      else (Some AwaitQueueItems, emit SyncStarted (s\<lparr>isProcessing := True\<rparr>)))"

text \<open>
  The awaited promise settles: the operation it stands for takes effect and the call runs
  on to its next \<^verbatim>\<open>await\<close>, or returns.
\<close>

fun settle :: "RemoteApi \<Rightarrow> Cont \<Rightarrow> Manager \<Rightarrow> Cont option \<times> Manager" where
  "settle api AwaitQueueItems s =
     (case offlineQueueDB_getQueueItems (db s) of
        Inl e \<Rightarrow> failed e s
      | Inr queueItems \<Rightarrow>
          if length queueItems = 0 then returned (s\<lparr>isProcessing := False\<rparr>)
          else nextItem queueItems (0, 0, []) s)"
| "settle api (AwaitDrop item rest acc) s =
     (case offlineQueueDB_removeFromQueue (itemId item) (db s) of
        Inl e \<Rightarrow> itemFailed e item rest acc s
      | Inr d \<Rightarrow> itemFailed (Error ''Max retries exceeded'') item rest acc (s\<lparr>db := d\<rparr>))"
| "settle api (AwaitSubmit n item rest acc) s =
     (case api n (submissionData (itemData item)) of
        Inl e \<Rightarrow> itemFailed e item rest acc s
      | Inr report \<Rightarrow> (Some (AwaitRemove item rest acc), s))"
| "settle api (AwaitRemove item rest acc) s =
     (case offlineQueueDB_removeFromQueue (itemId item) (db s) of
        Inl e \<Rightarrow> itemFailed e item rest acc s
      | Inr d \<Rightarrow>
          (case acc of (successCount, failureCount, errs) \<Rightarrow>
             nextItem rest (successCount + 1, failureCount, errs)
               (emit (ItemSynced (itemId item)) (s\<lparr>db := d\<rparr>))))"
| "settle api (AwaitUpdate item errorMessage rest acc) s =
     (case offlineQueueDB_updateQueueItem (itemId item) (retryCount item + 1)
             (Some errorMessage) (db s) of
        Inl e \<Rightarrow> failed e s
      | Inr d \<Rightarrow> nextItem rest acc (s\<lparr>db := d\<rparr>))"
| "settle api (AwaitSyncItems acc) s =
     (case offlineQueueDB_getQueueItems (db s) of
        Inl e \<Rightarrow> completed acc s
      | Inr queueItems \<Rightarrow>
          (Some (AwaitSyncStatus
                   \<lparr>sync_timestamp = clock s, success = (length queueItems = 0),
                    pending_count = length queueItems\<rparr> acc), s))"
| "settle api (AwaitSyncStatus st acc) s =
     (case syncStatusDB_updateSyncStatus st (db s) of
        Inl e \<Rightarrow> completed acc s
      | Inr d \<Rightarrow> completed acc (s\<lparr>db := d\<rparr>))"

text \<open>
  What can happen on the event loop. Every trigger of a cycle (the \<^verbatim>\<open>online\<close> listener,
  the timer armed by \<^verbatim>\<open>scheduleProcessing\<close>, \<^verbatim>\<open>forceSync\<close>, \<^verbatim>\<open>retryFailedItems\<close>, and
  \<^verbatim>\<open>executeSyncOperation\<close> of the sync manager, which \<^verbatim>\<open>performSync\<close> starts for the
  periodic timer, a reconnect and a service worker request) reaches the remote interface
  only by calling \<^verbatim>\<open>processQueue\<close>; it is the action \<open>CallProcessQueue\<close>. \<open>Settle i\<close> resumes
  the \<open>i\<close>-th suspended call. The environment may change connectivity, the clock and the
  reachability of the database at any time.
\<close>

datatype Action =
    CallProcessQueue
  | Settle nat
  | SetOnLine bool
  | SetClock int
  | SetUnavailable "thrown option"

text \<open>
  The suspended calls are kept with the length the trace \<open>attempts\<close> had when the call
  started, so that the attempts of one cycle can be told from earlier ones.
\<close>

type_synonym System = "Manager \<times> (nat \<times> Cont) list"

fun step :: "RemoteApi \<Rightarrow> System \<Rightarrow> Action \<Rightarrow> System" where
  "step api (s, cs) CallProcessQueue =
     (case callProcessQueue s of
        (None, s1) \<Rightarrow> (s1, cs)
      | (Some c, s1) \<Rightarrow> (s1, cs @ [(length (attempts s), c)]))"
| "step api (s, cs) (Settle i) =
     (if i < length cs then
        (case settle api (snd (cs ! i)) s of
           (None, s1) \<Rightarrow> (s1, take i cs @ drop (Suc i) cs)
         | (Some c, s1) \<Rightarrow> (s1, cs[i := (fst (cs ! i), c)]))
      else (s, cs))"
| "step api (s, cs) (SetOnLine b) = (s\<lparr>onLine := b\<rparr>, cs)"
| "step api (s, cs) (SetClock t) = (s\<lparr>clock := t\<rparr>, cs)"
| "step api (s, cs) (SetUnavailable f) = (s\<lparr>db := (db s)\<lparr>unavailable := f\<rparr>\<rparr>, cs)"

definition run :: "RemoteApi \<Rightarrow> System \<Rightarrow> Action list \<Rightarrow> System" where
  "run api sys actions = foldl (step api) sys actions"

section \<open>The sync manager (syncManager.ts)\<close>

text \<open>
  Of the sync manager, the guard of \<^verbatim>\<open>performSync\<close>: the field \<^verbatim>\<open>currentSyncPromise\<close>
  (here: whether it is set) and the network status decide, before anything is awaited,
  whether the call waits for the operation in flight, rejects, or starts
  \<^verbatim>\<open>executeSyncOperation\<close> and records its promise. \<^verbatim>\<open>executeSyncOperation\<close> reaches the
  queue through \<^verbatim>\<open>offlineQueue.getQueueStatus\<close> and \<^verbatim>\<open>offlineQueue.processQueue\<close> only.
\<close>

datatype NetworkStatus = Online | Offline | Checking

record SyncManager =
  currentSyncPromise :: bool
  networkStatus :: NetworkStatus

datatype SyncEntry = AwaitCurrent | Reject thrown | Execute

definition performSync :: "SyncManager \<Rightarrow> SyncEntry \<times> SyncManager" where
  "performSync sm =
     (if currentSyncPromise sm then (AwaitCurrent, sm)
      else if networkStatus sm = Offline then (Reject (Error ''Cannot sync while offline''), sm)
      else (Execute, sm\<lparr>currentSyncPromise := True\<rparr>))"

section \<open>The duplicate detector (duplicateDetector.ts)\<close>

text \<open>
  JavaScript numbers are IEEE doubles. A finite double is read as the real number it
  denotes. What the operations of the formula return on finite doubles is what the
  platform computes, a rounded sum or an approximation of a sine: they are the
  parameters \<open>fadd\<close>, \<open>fsub\<close>, \<open>fmul\<close>, \<open>fdiv\<close>, \<open>fsin\<close>, \<open>fcos\<close>, \<open>fsqrt\<close>, \<open>fatan2\<close> and the
  constant \<open>fPI\<close> for \<^verbatim>\<open>Math.PI\<close>. On finite doubles they are taken to give finite
  doubles, with one exception that is written out: \<^verbatim>\<open>Math.sqrt\<close> of a negative number is
  \<^verbatim>\<open>NaN\<close>, here \<open>None\<close>, and \<^verbatim>\<open>NaN\<close> stays \<^verbatim>\<open>NaN\<close> through \<^verbatim>\<open>Math.atan2\<close> and the two
  multiplications that follow. \<^verbatim>\<open>Math.round\<close> is exact on a finite double: the nearest
  integer, a tie going up, which is \<^const>\<open>round\<close>.
\<close>

record Arith =
  fadd :: "real \<Rightarrow> real \<Rightarrow> real"
  fsub :: "real \<Rightarrow> real \<Rightarrow> real"
  fmul :: "real \<Rightarrow> real \<Rightarrow> real"
  fdiv :: "real \<Rightarrow> real \<Rightarrow> real"
  fsin :: "real \<Rightarrow> real"
  fcos :: "real \<Rightarrow> real"
  fsqrt :: "real \<Rightarrow> real"
  fatan2 :: "real \<Rightarrow> real \<Rightarrow> real"
  fPI :: real

definition jsSqrt :: "Arith \<Rightarrow> real \<Rightarrow> real option" where
  "jsSqrt fp x = (if x < 0 then None else Some (fsqrt fp x))"

text \<open>The function that \<^verbatim>\<open>Math.atan2\<close> approximates.\<close>

definition atan2 :: "real \<Rightarrow> real \<Rightarrow> real" where
  "atan2 y x =
     (if 0 < x then arctan (y / x)
      else if x < 0 then (if 0 \<le> y then arctan (y / x) + pi else arctan (y / x) - pi)
      else if 0 < y then pi / 2
      else if y < 0 then - (pi / 2)
      else 0)"

text \<open>Arithmetic without rounding.\<close>

definition exact :: Arith where
  "exact = \<lparr>fadd = (+), fsub = (-), fmul = (*), fdiv = (/), fsin = sin, fcos = cos,
             fsqrt = sqrt, fatan2 = atan2, fPI = pi\<rparr>"

definition toRad :: "Arith \<Rightarrow> real \<Rightarrow> real" where
  "toRad fp d = fdiv fp (fmul fp d (fPI fp)) 180"

text \<open>\<^verbatim>\<open>haversine\<close>; \<open>None\<close> is \<^verbatim>\<open>NaN\<close>.\<close>

definition haversine :: "Arith \<Rightarrow> Location \<Rightarrow> Location \<Rightarrow> real option" where
  "haversine fp a b =
     (let R = 6371000;
          dLat = toRad fp (fsub fp (latitude b) (latitude a));
          dLon = toRad fp (fsub fp (longitude b) (longitude a));
          lat1 = toRad fp (latitude a);
          lat2 = toRad fp (latitude b);
          sinDLat = fsin fp (fdiv fp dLat 2);
          sinDLon = fsin fp (fdiv fp dLon 2);
          h = fadd fp (fmul fp sinDLat sinDLat)
                (fmul fp (fmul fp (fmul fp (fcos fp lat1) (fcos fp lat2)) sinDLon) sinDLon)
      in case jsSqrt fp h of
           None \<Rightarrow> None
         | Some y \<Rightarrow>
             (case jsSqrt fp (fsub fp 1 h) of
                None \<Rightarrow> None
              | Some x \<Rightarrow> Some (fmul fp R (fmul fp 2 (fatan2 fp y x)))))"

text \<open>A row of the query result, and \<^verbatim>\<open>PotentialDuplicate\<close>.\<close>

record Row =
  row_id :: string
  row_description :: string
  row_latitude :: real
  row_longitude :: real
  row_created_at :: string

record PotentialDuplicate =
  dup_id :: string
  dup_description :: string
  distance_m :: int
  created_at :: string

text \<open>
  The loop over \<^verbatim>\<open>result.rows\<close> that fills \<^verbatim>\<open>candidates\<close>; \<^verbatim>\<open>dist\<close> is named
  \<open>distance\<close> here. The comparison \<^verbatim>\<open>dist <= radiusMeters\<close> is false when \<^verbatim>\<open>dist\<close> is
  \<^verbatim>\<open>NaN\<close>.
\<close>

fun candidates :: "Arith \<Rightarrow> Location \<Rightarrow> real \<Rightarrow> Row list \<Rightarrow> PotentialDuplicate list" where
  "candidates fp current radiusMeters [] = []"
| "candidates fp current radiusMeters (row # rows) =
     (case haversine fp current \<lparr>latitude = row_latitude row, longitude = row_longitude row\<rparr> of
        None \<Rightarrow> candidates fp current radiusMeters rows
      | Some distance \<Rightarrow>
          if distance \<le> radiusMeters
          then \<lparr>dup_id = row_id row, dup_description = row_description row,
                distance_m = round distance, created_at = row_created_at row\<rparr>
               # candidates fp current radiusMeters rows
          else candidates fp current radiusMeters rows)"

text \<open>
  \<^verbatim>\<open>findPotentialDuplicates\<close>. The last argument is the outcome of the SQL query for the
  reports of the recency window: its rows, or the value \<^verbatim>\<open>query\<close> rejects with.
  \<^verbatim>\<open>candidates.sort((a, b) => a.distance_m - b.distance_m)\<close> is a stable sort on the
  rounded distances.
\<close>

definition findPotentialDuplicates ::
  "Arith \<Rightarrow> Location \<Rightarrow> real \<Rightarrow> thrown + Row list \<Rightarrow> thrown + PotentialDuplicate list" where
  "findPotentialDuplicates fp current radiusMeters result =
     (case result of
        Inl e \<Rightarrow> Inl e
      | Inr rows \<Rightarrow> Inr (take 5 (sort_key distance_m (candidates fp current radiusMeters rows))))"

section \<open>The handler of POST /reports (routes/reports.ts)\<close>

text \<open>
  A value of the request body where the code expects a number: a number, \<^verbatim>\<open>NaN\<close>, or a
  value of another type. The \<^verbatim>\<open>location\<close> of the body is an object with two such fields
  or a truthy value that is not an object; a missing or falsy one is \<open>None\<close>.
\<close>

datatype JsNumber = Num real | NaN | NotANumber

datatype JsLocation = LocationObject JsNumber JsNumber | NotAnObject

record RequestBody =
  body_category :: "string option"
  body_description :: "string option"
  body_location :: "JsLocation option"
  body_address :: "string option"
  body_photo_url :: "string option"
  body_photo_public_id :: "string option"

record Request =
  body :: RequestBody
  ip :: "string option"
  remoteAddress :: "string option"

record CreateReportInput =
  input_category :: string
  input_description :: string
  input_location :: Location
  input_address :: "string option"
  input_photo_url :: "string option"
  input_photo_public_id :: "string option"
  reporter_ip :: string

definition validateReportCategory :: "string \<Rightarrow> bool" where
  "validateReportCategory c =
     (c \<in> set [''Infrastructure'', ''Sanitation'', ''Safety'', ''Water'', ''Electrical''])"

definition validateDescription :: "string \<Rightarrow> bool" where
  "validateDescription d = (length d \<ge> 1 \<and> length d \<le> 500)"

text \<open>\<^verbatim>\<open>LocationValidator\<close>: \<open>Inl\<close> is the \<^verbatim>\<open>error\<close> of a result that is not valid.\<close>

definition validateCoordinates :: "JsNumber \<Rightarrow> JsNumber \<Rightarrow> string + real \<times> real" where
  "validateCoordinates lat lng =
     (if lat = NotANumber \<or> lng = NotANumber then Inl ''Latitude and longitude must be numbers''
      else if lat = NaN \<or> lng = NaN then Inl ''Latitude and longitude cannot be NaN''
      else (case (lat, lng) of
              (Num la, Num lo) \<Rightarrow>
                if la < -90 \<or> la > 90 then Inl ''Latitude must be between -90 and 90''
                else if lo < -180 \<or> lo > 180 then Inl ''Longitude must be between -180 and 180''
                else Inr (la, lo)
            | _ \<Rightarrow> Inl ''Latitude and longitude must be numbers''))"

definition isWithinPhilippines :: "real \<Rightarrow> real \<Rightarrow> bool" where
  "isWithinPhilippines lat lng = (lat \<ge> 4.5 \<and> lat \<le> 21.5 \<and> lng \<ge> 116.9 \<and> lng \<le> 126.6)"

definition validateLocation :: "JsLocation option \<Rightarrow> string + Location" where
  "validateLocation loc =
     (case loc of
        None \<Rightarrow> Inl ''Location must be an object''
      | Some NotAnObject \<Rightarrow> Inl ''Location must be an object''
      | Some (LocationObject lat lng) \<Rightarrow>
          (case validateCoordinates lat lng of
             Inl e \<Rightarrow> Inl e
           | Inr (la, lo) \<Rightarrow>
               if \<not> isWithinPhilippines la lo
               then Inl ''Location must be within Philippines boundaries''
               else Inr \<lparr>latitude = la, longitude = lo\<rparr>))"

text \<open>A non-negative integer in a template string.\<close>

fun showNat :: "nat \<Rightarrow> string" where
  "showNat n =
     (if n < 10 then [''0123456789'' ! n]
      else showNat (n div 10) @ [''0123456789'' ! (n mod 10)])"

text \<open>
  The response: its status and its JSON body, which is either the created report with the
  duplicates and a message, or an error with a message.
\<close>

datatype 'r ResponseBody =
    Created 'r "PotentialDuplicate list" string
  | Failure string string

type_synonym 'r Response = "nat \<times> 'r ResponseBody"

text \<open>\<^verbatim>\<open>a || b\<close> on optional strings.\<close>

definition orElse :: "string option \<Rightarrow> string option \<Rightarrow> string option" where
  "orElse a b = (if truthy a then a else b)"

text \<open>
  The handler, after the rate limiter has let the request through. \<open>fp\<close> is the arithmetic
  of the platform, \<open>queryResult\<close> the outcome of the query that
  \<^verbatim>\<open>findPotentialDuplicates\<close> runs, \<open>create\<close> the outcome of \<^verbatim>\<open>ReportModel.create\<close>. The
  duplicate detector is called with its default radius of 120 m.
\<close>

definition postReports ::
  "Arith \<Rightarrow> Request \<Rightarrow> thrown + Row list \<Rightarrow> (CreateReportInput \<Rightarrow> thrown + 'r) \<Rightarrow> 'r Response" where
  "postReports fp req queryResult create =
     (let b = body req in
      if \<not> truthy (body_category b) \<or> \<not> truthy (body_description b) \<or> body_location b = None
      then (400, Failure ''Validation failed''
                   ''Category, description, and location are required'')
      else if \<not> validateReportCategory (the (body_category b))
      then (400, Failure ''Invalid category''
                   ''Category must be one of: Infrastructure, Sanitation, Safety, Water, Electrical'')
      else if \<not> validateDescription (the (body_description b))
      then (400, Failure ''Invalid description''
                   ''Description must be between 1 and 500 characters'')
      else
        (case validateLocation (body_location b) of
           Inl e \<Rightarrow> (400, Failure ''Invalid location'' e)
         | Inr loc \<Rightarrow>
             let reportData =
                   \<lparr>input_category = the (body_category b),
                    input_description = the (body_description b),
                    input_location = loc,
                    input_address = body_address b,
                    input_photo_url = body_photo_url b,
                    input_photo_public_id = body_photo_public_id b,
                    reporter_ip = the (orElse (ip req) (orElse (remoteAddress req) (Some ''unknown'')))\<rparr>;
                 duplicates =
                   (case findPotentialDuplicates fp (input_location reportData) 120 queryResult of
                      Inl dupErr \<Rightarrow> []
                    | Inr ds \<Rightarrow> ds)
             in (case create reportData of
                   Inl error \<Rightarrow>
                     (500, Failure ''Internal server error'' ''Failed to create report'')
                 | Inr report \<Rightarrow>
                     (201, Created report duplicates
                             (if length duplicates \<noteq> 0
                              then ''Report submitted. '' @ showNat (length duplicates)
                                   @ '' similar recent report(s) nearby.''
                              else ''Report submitted successfully'')))))"

section \<open>Well-formed stores\<close>

text \<open>
  An object store holds one record per key and lists its records in key order.
\<close>

definition keyOrdered :: "OfflineQueueItem list \<Rightarrow> bool" where
  "keyOrdered xs = (sorted (map itemId xs) \<and> distinct (map itemId xs))"

section \<open>Sample data\<close>

definition leak :: ReportFormData where
  "leak = \<lparr>category = ''Water'', description = ''Leak'',
           location = Some \<lparr>latitude = 9.78, longitude = 125.49\<rparr>, address = None\<rparr>"

definition emptyDb :: Database where
  "emptyDb = \<lparr>offlineQueue = [], syncStatus = None, unavailable = None,
               constraintError = Error ''Key already exists in the object store.''\<rparr>"

text \<open>A manager that is online and idle, on an empty database.\<close>

definition idle :: Manager where
  "idle = \<lparr>db = emptyDb, isProcessing = False, onLine = True, syncTimeoutId = False,
           clock = 0, emitted = [], attempts = []\<rparr>"

definition alwaysFails :: RemoteApi where
  "alwaysFails n d = Inl (Error ''HTTP 500'')"

definition alwaysSucceeds :: RemoteApi where
  "alwaysSucceeds n d = Inr ''report''"

text \<open>A queued item with the given id, time, retry count and error.\<close>

definition queued :: "string \<Rightarrow> int \<Rightarrow> nat \<Rightarrow> string option \<Rightarrow> OfflineQueueItem" where
  "queued k t rc err =
     \<lparr>itemId = k, itemType = CREATE_REPORT, itemData = leak, timestamp = t,
      retryCount = rc, lastError = err\<rparr>"

text \<open>One cycle, keeping only the state.\<close>

definition cycle :: "RemoteApi \<Rightarrow> Manager \<Rightarrow> Manager" where
  "cycle api s = snd (processQueue api s)"

text \<open>Two reports queued at times 1 and 2 while offline, then back online.\<close>

definition twoQueued :: Manager where
  "twoQueued =
     (snd (addToQueue ''queue_2_b'' leak
            ((snd (addToQueue ''queue_1_a'' leak (idle\<lparr>onLine := False, clock := 1\<rparr>)))
               \<lparr>clock := 2\<rparr>)))\<lparr>onLine := True\<rparr>"

text \<open>A queue holding one item that failed once.\<close>

definition staleItem :: OfflineQueueItem where
  "staleItem = queued ''queue_1_a'' 1 1 (Some ''HTTP 500'')"

definition staleQueue :: Manager where
  "staleQueue = idle\<lparr>db := emptyDb\<lparr>offlineQueue := [staleItem]\<rparr>\<rparr>"

text \<open>Six items queued at times 1 to 6, each with an error of its own.\<close>

definition sixFailed :: Manager where
  "sixFailed = idle\<lparr>db := emptyDb\<lparr>offlineQueue :=
     [queued ''queue_1_a'' 1 1 (Some ''e1''), queued ''queue_2_a'' 2 1 (Some ''e2''),
      queued ''queue_3_a'' 3 1 (Some ''e3''), queued ''queue_4_a'' 4 1 (Some ''e4''),
      queued ''queue_5_a'' 5 1 (Some ''e5''), queued ''queue_6_a'' 6 1 (Some ''e6'')]\<rparr>\<rparr>"

text \<open>A manager whose database cannot be opened.\<close>

definition unreachable :: Manager where
  "unreachable =
     idle\<lparr>db := emptyDb\<lparr>unavailable := Some (Error ''Failed to initialize IndexedDB'')\<rparr>\<rparr>"

text \<open>A queue at capacity: 100 items with one-character ids.\<close>

definition fullQueue :: Manager where
  "fullQueue =
     idle\<lparr>db := emptyDb\<lparr>offlineQueue := map (\<lambda>n. queued [char_of n] (int n) 0 None) [0..<100]\<rparr>\<rparr>"

text \<open>Three fresh items, queued at times 20, 30 and 10 in key order.\<close>

definition threeQueued :: Manager where
  "threeQueued = idle\<lparr>db := emptyDb\<lparr>offlineQueue :=
     [queued ''queue_a'' 20 0 None, queued ''queue_b'' 30 0 None, queued ''queue_c'' 10 0 None]\<rparr>\<rparr>"

text \<open>
  Three items of which the second has used up its retries.
\<close>

definition mixedQueue :: Manager where
  "mixedQueue = idle\<lparr>db := emptyDb\<lparr>offlineQueue :=
     [queued ''queue_1_a'' 1 1 (Some ''HTTP 500''), queued ''queue_2_b'' 2 3 (Some ''HTTP 500''),
      queued ''queue_3_c'' 3 0 None]\<rparr>\<rparr>"

text \<open>A query point, two rows, and a valid request.\<close>

definition manila :: Location where
  "manila = \<lparr>latitude = 14.5995, longitude = 120.9842\<rparr>"

definition sameSpot :: Row where
  "sameSpot = \<lparr>row_id = ''r1'', row_description = ''Leak'', row_latitude = 14.5995,
               row_longitude = 120.9842, row_created_at = ''2025-09-23T08:00:00Z''\<rparr>"

definition oneDegreeNorth :: Row where
  "oneDegreeNorth = \<lparr>row_id = ''r2'', row_description = ''Pothole'', row_latitude = 15.5995,
               row_longitude = 120.9842, row_created_at = ''2025-09-23T09:00:00Z''\<rparr>"

text \<open>
  Five reports two millionths of a degree (some 22 cm) north of the query point, and the
  entries they give; after them, in query order, a report at the query point itself.
\<close>

definition stepNorth :: "string \<Rightarrow> Row" where
  "stepNorth k = \<lparr>row_id = k, row_description = ''Pothole'', row_latitude = 14.599502,
                  row_longitude = 120.9842, row_created_at = ''2025-09-23T09:00:00Z''\<rparr>"

definition nearbyDup :: "string \<Rightarrow> PotentialDuplicate" where
  "nearbyDup k = \<lparr>dup_id = k, dup_description = ''Pothole'', distance_m = 0,
                  created_at = ''2025-09-23T09:00:00Z''\<rparr>"

definition sixNearby :: "Row list" where
  "sixNearby = [stepNorth ''s1'', stepNorth ''s2'', stepNorth ''s3'', stepNorth ''s4'',
                stepNorth ''s5'', sameSpot]"

definition waterLeak :: Request where
  "waterLeak =
     \<lparr>body = \<lparr>body_category = Some ''Water'', body_description = Some ''Leak'',
               body_location = Some (LocationObject (Num 9.78) (Num 125.49)),
               body_address = None, body_photo_url = None, body_photo_public_id = None\<rparr>,
      ip = Some ''10.0.0.7'', remoteAddress = None\<rparr>"

section \<open>Cycles in flight\<close>

text \<open>
  The items of the snapshot that a suspended call has not started on yet.
\<close>

fun remaining :: "Cont \<Rightarrow> OfflineQueueItem list" where
  "remaining AwaitQueueItems = []"
| "remaining (AwaitDrop item rest acc) = rest"
| "remaining (AwaitSubmit n item rest acc) = rest"
| "remaining (AwaitRemove item rest acc) = rest"
| "remaining (AwaitUpdate item errorMessage rest acc) = rest"
| "remaining (AwaitSyncItems acc) = []"
| "remaining (AwaitSyncStatus st acc) = []"

text \<open>
  What holds of a call that started when the trace \<open>attempts\<close> had length \<open>m\<close> and is
  suspended at \<open>c\<close>: the flag is set, and the submissions made since it started together
  with the items still to come have pairwise different ids; before the snapshot is read,
  no submission has been made.
\<close>

definition inFlight :: "nat \<Rightarrow> Cont \<Rightarrow> Manager \<Rightarrow> bool" where
  "inFlight m c s \<longleftrightarrow>
     isProcessing s \<and> m \<le> length (attempts s)
     \<and> distinct (drop m (attempts s) @ map itemId (remaining c))
     \<and> (c = AwaitQueueItems \<longrightarrow> m = length (attempts s))"

text \<open>
  The store has one record per id, and either no call is suspended and the flag is
  clear, or exactly one call is suspended.
\<close>

definition cycleInv :: "System \<Rightarrow> bool" where
  "cycleInv sys \<longleftrightarrow>
     distinct (map itemId (offlineQueue (db (fst sys))))
     \<and> (case snd sys of
           [] \<Rightarrow> \<not> isProcessing (fst sys)
         | call # others \<Rightarrow> others = [] \<and> inFlight (fst call) (snd call) (fst sys))"

text \<open>
  A call left alone: \<open>n\<close> times, the promise it awaits settles. \<open>loopExit\<close> is where the
  call stands when the loop over the items is left, by a rejection or at its end.
\<close>

fun settles :: "RemoteApi \<Rightarrow> nat \<Rightarrow> Cont option \<times> Manager \<Rightarrow> Cont option \<times> Manager" where
  "settles api 0 k = k"
| "settles api (Suc n) (None, s) = (None, s)"
| "settles api (Suc n) (Some c, s) = settles api n (settle api c s)"

definition loopExit ::
  "(thrown + nat \<times> nat \<times> string list) \<times> Manager \<Rightarrow> Cont option \<times> Manager" where
  "loopExit k = (case k of (Inl e, s) \<Rightarrow> failed e s | (Inr acc, s) \<Rightarrow> (Some (AwaitSyncItems acc), s))"

text \<open>Triggers arriving while a cycle over two failing items is under way.\<close>

definition overlapping :: "Action list" where
  "overlapping = [CallProcessQueue, CallProcessQueue, Settle 0, CallProcessQueue, Settle 0,
                  SetOnLine False, SetOnLine True, CallProcessQueue, Settle 0, CallProcessQueue,
                  Settle 0, Settle 0, CallProcessQueue]"

section \<open>Properties of the object store\<close>

lemma os_get_None_iff: "os_get k xs = None \<longleftrightarrow> k \<notin> itemId ` set xs"
  by (auto simp: os_get_def find_None_iff)

lemma os_get_SomeD: "os_get k xs = Some x \<Longrightarrow> x \<in> set xs \<and> itemId x = k"
  by (auto simp: os_get_def find_Some_iff)

lemma os_get_Some_iff:
  "distinct (map itemId xs) \<Longrightarrow> os_get k xs = Some x \<longleftrightarrow> x \<in> set xs \<and> itemId x = k"
proof (induction xs)
  case Nil
  then show ?case by (simp add: os_get_def)
next
  case (Cons y ys)
  then show ?case by (auto simp: os_get_def)
qed

lemma set_os_delete: "set (os_delete k xs) = {y \<in> set xs. itemId y \<noteq> k}"
  by (auto simp: os_delete_def)

lemma set_os_put: "set (os_put x xs) = insert x {y \<in> set xs. itemId y \<noteq> itemId x}"
  by (auto simp: os_put_def set_insort_key set_os_delete)

lemma distinct_os_delete: "distinct (map itemId xs) \<Longrightarrow> distinct (map itemId (os_delete k xs))"
  by (simp add: os_delete_def distinct_map_filter)

lemma sorted_os_delete: "sorted (map itemId xs) \<Longrightarrow> sorted (map itemId (os_delete k xs))"
  by (simp add: os_delete_def sorted_filter)

lemma distinct_insort_key_id:
  "distinct (map itemId xs) \<Longrightarrow> itemId x \<notin> itemId ` set xs \<Longrightarrow> distinct (map itemId (insort_key itemId x xs))"
  by (auto simp: distinct_map distinct_insort set_insort_key)

lemma distinct_os_put: "distinct (map itemId xs) \<Longrightarrow> distinct (map itemId (os_put x xs))"
  unfolding os_put_def
  by (rule distinct_insort_key_id) (auto simp: distinct_os_delete set_os_delete)

lemma keyOrdered_os_delete: "keyOrdered xs \<Longrightarrow> keyOrdered (os_delete k xs)"
  by (simp add: keyOrdered_def distinct_os_delete sorted_os_delete)

lemma sorted_os_put: "sorted (map itemId xs) \<Longrightarrow> sorted (map itemId (os_put x xs))"
  by (simp add: os_put_def sorted_insort_key sorted_os_delete)

lemma keyOrdered_os_put: "keyOrdered xs \<Longrightarrow> keyOrdered (os_put x xs)"
  by (simp add: keyOrdered_def distinct_os_put sorted_os_put)

lemma keyOrdered_os_add: "keyOrdered xs \<Longrightarrow> os_add violation x xs = Inr ys \<Longrightarrow> keyOrdered ys"
  by (auto simp: keyOrdered_def os_add_def os_get_None_iff sorted_insort_key distinct_insort_key_id split: if_splits)

lemma os_get_os_delete:
  "os_get k (os_delete k' xs) = (if k = k' then None else os_get k xs)"
  by (induction xs) (auto simp: os_get_def os_delete_def)

lemma os_get_os_put:
  "distinct (map itemId xs) \<Longrightarrow> os_get k (os_put x xs) = (if k = itemId x then Some x else os_get k xs)"
proof (cases "k = itemId x")
  case True
  assume d: "distinct (map itemId xs)"
  have "os_get (itemId x) (os_put x xs) = Some x"
    using distinct_os_put[OF d, of x] by (simp add: os_get_Some_iff set_os_put)
  with True show ?thesis by simp
next
  case False
  assume d: "distinct (map itemId xs)"
  show ?thesis
  proof (cases "os_get k xs")
    case None
    then have "os_get k (os_put x xs) = None"
      using False by (auto simp: os_get_None_iff set_os_put)
    with None False show ?thesis by simp
  next
    case (Some y)
    then have "y \<in> set xs" "itemId y = k" using os_get_SomeD by auto
    then have "os_get k (os_put x xs) = Some y"
      using False distinct_os_put[OF d, of x] by (simp add: os_get_Some_iff set_os_put)
    with Some False show ?thesis by simp
  qed
qed

lemma os_delete_absent: "k \<notin> itemId ` set xs \<Longrightarrow> os_delete k xs = xs"
  unfolding os_delete_def by (rule filter_True) force

lemma os_delete_remove1:
  "distinct (map itemId xs) \<Longrightarrow> x \<in> set xs \<Longrightarrow> os_delete (itemId x) xs = remove1 x xs"
proof (induction xs)
  case Nil
  then show ?case by simp
next
  case (Cons a as)
  show ?case
  proof (cases "a = x")
    case True
    have "itemId x \<notin> itemId ` set as" using Cons.prems(1) True by simp
    then have "os_delete (itemId x) as = as" by (rule os_delete_absent)
    then show ?thesis using True by (simp add: os_delete_def)
  next
    case False
    then have mem: "x \<in> set as" using Cons.prems(2) by simp
    have "itemId a \<notin> itemId ` set as" using Cons.prems(1) by simp
    then have ne: "itemId a \<noteq> itemId x" using mem by force
    have "os_delete (itemId x) as = remove1 x as"
      using Cons.IH Cons.prems(1) mem by simp
    then show ?thesis using False ne by (simp add: os_delete_def)
  qed
qed

lemma filter_key_single:
  "distinct (map itemId xs) \<Longrightarrow> x \<in> set xs \<Longrightarrow> filter (\<lambda>y. itemId x = itemId y) xs = [x]"
proof (induction xs)
  case Nil
  then show ?case by simp
next
  case (Cons a as)
  show ?case
  proof (cases "a = x")
    case True
    have "itemId x \<notin> itemId ` set as" using Cons.prems(1) True by simp
    then have "filter (\<lambda>y. itemId x = itemId y) as = []"
      by (force simp: filter_empty_conv)
    then show ?thesis using True by simp
  next
    case False
    then have mem: "x \<in> set as" using Cons.prems(2) by simp
    have "itemId a \<notin> itemId ` set as" using Cons.prems(1) by simp
    then have ne: "itemId x \<noteq> itemId a" using mem by (metis imageI)
    have "filter (\<lambda>y. itemId x = itemId y) as = [x]"
      using Cons.IH Cons.prems(1) mem by simp
    then show ?thesis using ne by simp
  qed
qed

lemma os_put_same:
  assumes "keyOrdered xs" "x \<in> set xs"
  shows "os_put x xs = xs"
proof -
  have d: "distinct (map itemId xs)" and s: "sorted (map itemId xs)"
    using assms by (auto simp: keyOrdered_def)
  have h: "hd (filter (\<lambda>y. itemId x = itemId y) xs) = x"
    by (simp only: filter_key_single[OF d assms(2)] list.sel)
  show ?thesis
    unfolding os_put_def os_delete_remove1[OF d assms(2)]
    by (rule insort_key_remove1[OF assms(2) s h])
qed

section \<open>retryFailedItems\<close>

lemma updateQueueItem_same:
  assumes "unavailable d = None" "keyOrdered (offlineQueue d)" "item \<in> set (offlineQueue d)"
  shows "offlineQueueDB_updateQueueItem (itemId item) (retryCount item) None d = Inr d"
proof -
  have g: "os_get (itemId item) (offlineQueue d) = Some item"
    using assms(2,3) by (simp add: os_get_Some_iff keyOrdered_def)
  have "item\<lparr>retryCount := retryCount item, lastError := lastError item\<rparr> = item" by simp
  then show ?thesis
    using assms(1) g os_put_same[OF assms(2,3)]
    by (simp add: offlineQueueDB_updateQueueItem_def withDB_def truthy_def)
qed

text \<open>
  The loop of \<^verbatim>\<open>retryFailedItems\<close> changes nothing in a well-formed store: an
  \<^verbatim>\<open>undefined\<close> error is not written by \<^verbatim>\<open>updateQueueItem\<close>.
\<close>

lemma resetFailedItems_noop:
  assumes "unavailable d = None" "keyOrdered (offlineQueue d)" "set items \<subseteq> set (offlineQueue d)"
  shows "resetFailedItems items d = Inr d"
  using assms(3)
proof (induction items)
  case Nil
  then show ?case by simp
next
  case (Cons a items)
  then show ?case using updateQueueItem_same[OF assms(1,2), of a] by simp
qed

text \<open>
  Claim C7 says that \<^verbatim>\<open>retryFailedItems\<close> clears \<^verbatim>\<open>lastError\<close> on every item that has an
  error and retries left, before the queue is processed again. On the queue holding the
  single item \<open>staleItem\<close> (one failed attempt, error \<^verbatim>\<open>HTTP 500\<close>) the item is selected
  by the filter, and after the loop that is meant to reset it the database is what it
  was: the item still carries its error.
\<close>

theorem retryFailedItems_keeps_lastError:
  "offlineQueueDB_getQueueItems (db staleQueue) = Inr [staleItem]
   \<and> failedItems [staleItem] = [staleItem]
   \<and> lastError staleItem = Some ''HTTP 500''
   \<and> resetFailedItems (failedItems [staleItem]) (db staleQueue) = Inr (db staleQueue)"
  by code_simp

section \<open>getQueueStatus\<close>

text \<open>
  Claim C9 says that \<^verbatim>\<open>getQueueStatus\<close> reports the number of queued items as \<open>pending\<close>
  and the most recent errors, at most five. With six failed items queued at times 1 to 6,
  \<open>pending\<close> is 6 and the five errors reported are those of the five oldest items; the
  error of the item queued last is left out.
\<close>

theorem getQueueStatus_oldest_errors:
  "errors (getQueueStatus sixFailed) = [''e1'', ''e2'', ''e3'', ''e4'', ''e5'']
   \<and> pending (getQueueStatus sixFailed) = 6"
  by code_simp

section \<open>processQueue and errors\<close>

lemma getQueueItems_unavailable:
  "unavailable d = Some e \<Longrightarrow> offlineQueueDB_getQueueItems d = Inl e"
  by (simp add: offlineQueueDB_getQueueItems_def withDB_def)

lemma getQueueItems_available:
  "unavailable d = None \<Longrightarrow> offlineQueueDB_getQueueItems d = Inr (sort_key timestamp (offlineQueue d))"
  by (simp add: offlineQueueDB_getQueueItems_def withDB_def)

lemma processQueue_resolves: "fst (processQueue api s) = Inr ()"
  by (simp add: processQueue_def split: prod.splits sum.splits)

lemma processQueue_unavailable:
  assumes "unavailable (db s) = Some e" "\<not> isProcessing s" "isOnline s"
  shows "snd (processQueue api s)
           = s\<lparr>emitted := emitted s @ [SyncStarted, SyncFailedError (messageOr ''Processing failed'' e)]\<rparr>"
  using assms
  by (simp add: processQueue_def processQueue_try_def emit_def isOnline_def
        getQueueItems_unavailable)

lemma processItems_failure_step:
  assumes "unavailable (db s) = None"
    and "os_get (itemId item) (offlineQueue (db s)) = Some stored"
    and "retryCount item < MAX_RETRIES"
    and "itemType item = CREATE_REPORT"
    and "api (length (attempts s)) (submissionData (itemData item)) = Inl err"
  shows "processItems api (item # rest) (sc, fc, errs) s =
           processItems api rest
             (sc, fc + 1, errs @ [itemId item @ '': '' @ messageOr ''Unknown error'' err])
             (s\<lparr>attempts := attempts s @ [itemId item],
                emitted := emitted s @ [ItemFailed (itemId item) (messageOr ''Unknown error'' err)],
                db := (db s)\<lparr>offlineQueue :=
                        os_put (stored\<lparr>retryCount := retryCount item + 1,
                                       lastError := (if messageOr ''Unknown error'' err = []
                                                     then lastError stored
                                                     else Some (messageOr ''Unknown error'' err))\<rparr>)
                               (offlineQueue (db s))\<rparr>\<rparr>)"
  using assms
  by (simp add: processQueueItem_def emit_def offlineQueueDB_updateQueueItem_def withDB_def
        truthy_def Let_def)

text \<open>
  Claim C8 says that \<^verbatim>\<open>processQueue\<close> rethrows the storage error when the local store is
  unreachable. It does not: on a database that cannot be opened the promise resolves, and
  the error only shows as a \<^verbatim>\<open>sync-failed\<close> event.
\<close>

theorem processQueue_swallows_storage_error:
  "processQueue alwaysSucceeds unreachable
     = (Inr (), unreachable\<lparr>emitted := [SyncStarted, SyncFailedError ''Failed to initialize IndexedDB'']\<rparr>)"
  by code_simp

text \<open>
  Claim C8 as the code has it: \<^verbatim>\<open>processQueue\<close> never rejects. When the store is
  unreachable, an idle manager that is online emits \<^verbatim>\<open>sync-started\<close> and a
  \<^verbatim>\<open>sync-failed\<close> event with the message of the storage error, and is otherwise left as
  it was, \<^verbatim>\<open>isProcessing\<close> cleared. When the submission of an item fails, the attempt is
  recorded on the stored item (the retry count of the snapshot plus one, and the message
  as \<^verbatim>\<open>lastError\<close> unless the message is empty), \<^verbatim>\<open>item-failed\<close> is emitted, and the
  loop goes on with the remaining items.
\<close>

theorem processQueue_never_rejects:
  "fst (processQueue api s) = Inr ()
   \<and> (unavailable (db s) = Some e \<longrightarrow> \<not> isProcessing s \<longrightarrow> isOnline s \<longrightarrow>
        snd (processQueue api s)
          = s\<lparr>emitted := emitted s @ [SyncStarted, SyncFailedError (messageOr ''Processing failed'' e)]\<rparr>)
   \<and> (unavailable (db s) = None \<longrightarrow> os_get (itemId item) (offlineQueue (db s)) = Some stored \<longrightarrow>
        retryCount item < MAX_RETRIES \<longrightarrow> itemType item = CREATE_REPORT \<longrightarrow>
        api (length (attempts s)) (submissionData (itemData item)) = Inl err \<longrightarrow>
        processItems api (item # rest) (sc, fc, errs) s =
           processItems api rest
             (sc, fc + 1, errs @ [itemId item @ '': '' @ messageOr ''Unknown error'' err])
             (s\<lparr>attempts := attempts s @ [itemId item],
                emitted := emitted s @ [ItemFailed (itemId item) (messageOr ''Unknown error'' err)],
                db := (db s)\<lparr>offlineQueue :=
                        os_put (stored\<lparr>retryCount := retryCount item + 1,
                                       lastError := (if messageOr ''Unknown error'' err = []
                                                     then lastError stored
                                                     else Some (messageOr ''Unknown error'' err))\<rparr>)
                               (offlineQueue (db s))\<rparr>\<rparr>))"
  using processQueue_resolves processQueue_unavailable processItems_failure_step by blast

text \<open>The theorem at the unreachable database and at the queue with one failing item.\<close>

theorem processQueue_never_rejects_witness:
  "snd (processQueue alwaysFails unreachable)
     = unreachable\<lparr>emitted := [SyncStarted, SyncFailedError ''Failed to initialize IndexedDB'']\<rparr>
   \<and> processItems alwaysFails [staleItem] (0, 0, []) staleQueue
     = (Inr (0, 1, [''queue_1_a: HTTP 500'']),
        staleQueue\<lparr>attempts := [''queue_1_a''],
                   emitted := [ItemFailed ''queue_1_a'' ''HTTP 500''],
                   db := emptyDb\<lparr>offlineQueue := [queued ''queue_1_a'' 1 2 (Some ''HTTP 500'')]\<rparr>\<rparr>)"
  using processQueue_never_rejects[of alwaysFails unreachable "Error ''Failed to initialize IndexedDB''"
      staleItem staleItem "Error ''HTTP 500''" "[]" 0 0 "[]"]
    processQueue_never_rejects[of alwaysFails staleQueue "Error ''x''"
      staleItem staleItem "Error ''HTTP 500''" "[]" 0 0 "[]"]
  by (simp add: unreachable_def staleQueue_def staleItem_def idle_def emptyDb_def alwaysFails_def
        queued_def messageOr_def isOnline_def os_get_def os_put_def os_delete_def MAX_RETRIES_def)

section \<open>addToQueue\<close>

lemma updateSyncStatus_frame:
  "offlineQueue (db (updateSyncStatus s)) = offlineQueue (db s)
   \<and> unavailable (db (updateSyncStatus s)) = unavailable (db s)
   \<and> emitted (updateSyncStatus s) = emitted s
   \<and> attempts (updateSyncStatus s) = attempts s
   \<and> isProcessing (updateSyncStatus s) = isProcessing s
   \<and> onLine (updateSyncStatus s) = onLine s
   \<and> syncTimeoutId (updateSyncStatus s) = syncTimeoutId s
   \<and> clock (updateSyncStatus s) = clock s"
  by (simp add: updateSyncStatus_def syncStatusDB_updateSyncStatus_def withDB_def
        offlineQueueDB_getQueueItems_def split: sum.splits option.splits)

lemma addToQueue_full:
  assumes "unavailable (db s) = None" "length (offlineQueue (db s)) \<ge> MAX_QUEUE_SIZE"
  shows "addToQueue newId reportData s = (Inl (Error ''Queue is full (max 100 items)''), s)"
  using assms by (simp add: addToQueue_def getQueueItems_available)

lemma addToQueue_below:
  assumes "unavailable (db s) = None" "length (offlineQueue (db s)) < MAX_QUEUE_SIZE"
    and "os_get newId (offlineQueue (db s)) = None"
  shows "fst (addToQueue newId reportData s) = Inr newId"
    and "offlineQueue (db (snd (addToQueue newId reportData s)))
           = insort_key itemId \<lparr>itemId = newId, itemType = CREATE_REPORT, itemData = reportData,
                                 timestamp = clock s, retryCount = 0, lastError = None\<rparr>
               (offlineQueue (db s))"
    and "emitted (snd (addToQueue newId reportData s))
           = emitted s @ [QueueUpdated ''added'' (Some newId) (length (offlineQueue (db s)) + 1)]"
    and "unavailable (db (snd (addToQueue newId reportData s))) = None"
  using assms
  by (simp_all add: addToQueue_def getQueueItems_available offlineQueueDB_addToQueue_def
        withDB_def os_add_def Let_def updateSyncStatus_frame emit_def scheduleProcessing_def isOnline_def)

lemma getQueueStatus_available:
  assumes "unavailable (db s) = None"
  shows "pending (getQueueStatus s) = length (offlineQueue (db s))"
    and "processing (getQueueStatus s) = isProcessing s"
    and "errors (getQueueStatus s)
           = take 5 (map (\<lambda>item. the (lastError item))
                      (filter (\<lambda>item. truthy (lastError item))
                         (sort_key timestamp (offlineQueue (db s)))))"
  using assms
  by (simp_all add: getQueueStatus_def getQueueItems_available syncStatusDB_getSyncStatus_def
        withDB_def)

text \<open>
  Claim C6: on a reachable store, \<^verbatim>\<open>addToQueue\<close> rejects with the error
  \<^verbatim>\<open>Queue is full (max 100 items)\<close> whenever the queue holds 100 items or more, and
  leaves the state as it was. Below that, and with an id that is not yet a key of the
  store, it resolves to the new id, the store gains exactly the new item with retry count
  0, no error and the current time as its timestamp, the pending count grows by one, and
  one \<^verbatim>\<open>queue-updated\<close> event is emitted.
\<close>

theorem addToQueue_capacity:
  assumes "unavailable (db s) = None"
  shows "MAX_QUEUE_SIZE = 100
    \<and> (length (offlineQueue (db s)) \<ge> 100 \<longrightarrow>
         addToQueue newId reportData s = (Inl (Error ''Queue is full (max 100 items)''), s))
    \<and> (length (offlineQueue (db s)) < 100 \<longrightarrow> os_get newId (offlineQueue (db s)) = None \<longrightarrow>
         fst (addToQueue newId reportData s) = Inr newId
         \<and> offlineQueue (db (snd (addToQueue newId reportData s)))
             = insort_key itemId \<lparr>itemId = newId, itemType = CREATE_REPORT, itemData = reportData,
                                   timestamp = clock s, retryCount = 0, lastError = None\<rparr>
                 (offlineQueue (db s))
         \<and> pending (getQueueStatus (snd (addToQueue newId reportData s)))
             = pending (getQueueStatus s) + 1
         \<and> emitted (snd (addToQueue newId reportData s))
             = emitted s @ [QueueUpdated ''added'' (Some newId) (length (offlineQueue (db s)) + 1)])"
proof -
  have full: "length (offlineQueue (db s)) \<ge> 100 \<longrightarrow>
         addToQueue newId reportData s = (Inl (Error ''Queue is full (max 100 items)''), s)"
    using addToQueue_full[OF assms] by (simp add: MAX_QUEUE_SIZE_def)
  have below: "length (offlineQueue (db s)) < 100 \<longrightarrow> os_get newId (offlineQueue (db s)) = None \<longrightarrow>
         fst (addToQueue newId reportData s) = Inr newId
         \<and> offlineQueue (db (snd (addToQueue newId reportData s)))
             = insort_key itemId \<lparr>itemId = newId, itemType = CREATE_REPORT, itemData = reportData,
                                   timestamp = clock s, retryCount = 0, lastError = None\<rparr>
                 (offlineQueue (db s))
         \<and> pending (getQueueStatus (snd (addToQueue newId reportData s)))
             = pending (getQueueStatus s) + 1
         \<and> emitted (snd (addToQueue newId reportData s))
             = emitted s @ [QueueUpdated ''added'' (Some newId) (length (offlineQueue (db s)) + 1)]"
  proof (intro impI)
    assume lt: "length (offlineQueue (db s)) < 100"
      and fresh: "os_get newId (offlineQueue (db s)) = None"
    have lt': "length (offlineQueue (db s)) < MAX_QUEUE_SIZE"
      using lt by (simp add: MAX_QUEUE_SIZE_def)
    note b = addToQueue_below[OF assms lt' fresh, of reportData]
    have "pending (getQueueStatus (snd (addToQueue newId reportData s)))
            = pending (getQueueStatus s) + 1"
      by (simp add: getQueueStatus_available(1)[OF b(4)] getQueueStatus_available(1)[OF assms] b(2))
    with b show "fst (addToQueue newId reportData s) = Inr newId
         \<and> offlineQueue (db (snd (addToQueue newId reportData s)))
             = insort_key itemId \<lparr>itemId = newId, itemType = CREATE_REPORT, itemData = reportData,
                                   timestamp = clock s, retryCount = 0, lastError = None\<rparr>
                 (offlineQueue (db s))
         \<and> pending (getQueueStatus (snd (addToQueue newId reportData s)))
             = pending (getQueueStatus s) + 1
         \<and> emitted (snd (addToQueue newId reportData s))
             = emitted s @ [QueueUpdated ''added'' (Some newId) (length (offlineQueue (db s)) + 1)]"
      by simp
  qed
  show ?thesis using full below by (simp add: MAX_QUEUE_SIZE_def)
qed

text \<open>The theorem at a queue of 100 items and at the empty queue.\<close>

theorem addToQueue_capacity_witness:
  "addToQueue ''queue_9_z'' leak fullQueue = (Inl (Error ''Queue is full (max 100 items)''), fullQueue)
   \<and> fst (addToQueue ''queue_9_z'' leak (idle\<lparr>clock := 9\<rparr>)) = Inr ''queue_9_z''
   \<and> offlineQueue (db (snd (addToQueue ''queue_9_z'' leak (idle\<lparr>clock := 9\<rparr>))))
       = [queued ''queue_9_z'' 9 0 None]
   \<and> emitted (snd (addToQueue ''queue_9_z'' leak (idle\<lparr>clock := 9\<rparr>)))
       = [QueueUpdated ''added'' (Some ''queue_9_z'') 1]"
  using addToQueue_capacity[of fullQueue "''queue_9_z''" leak]
    addToQueue_capacity[of "idle\<lparr>clock := 9\<rparr>" "''queue_9_z''" leak]
  by (simp add: fullQueue_def idle_def emptyDb_def queued_def os_get_def)

section \<open>The order of submissions in a cycle\<close>

lemma removeFromQueue_available:
  "unavailable d = None \<Longrightarrow>
     offlineQueueDB_removeFromQueue k d = Inr (d\<lparr>offlineQueue := os_delete k (offlineQueue d)\<rparr>)"
  by (simp add: offlineQueueDB_removeFromQueue_def withDB_def)

lemma processQueueItem_attempts:
  "attempts (snd (processQueueItem api item s))
     = attempts s @ (if retryCount item < MAX_RETRIES \<and> itemType item = CREATE_REPORT
                     then [itemId item] else [])"
  by (simp add: processQueueItem_def Let_def split: sum.splits)

lemma processItems_attempts_subseq:
  "\<exists>ys. subseq ys items \<and> attempts (snd (processItems api items acc s)) = attempts s @ map itemId ys"
proof (induction items arbitrary: acc s)
  case Nil
  show ?case by simp
next
  case (Cons item rest)
  obtain sc fc errs where acc: "acc = (sc, fc, errs)" by (cases acc) auto
  obtain r s1 where p: "processQueueItem api item s = (r, s1)" by fastforce
  define zs where "zs = (if retryCount item < MAX_RETRIES \<and> itemType item = CREATE_REPORT
                     then [item] else [])"
  have a1: "attempts s1 = attempts s @ map itemId zs"
    using processQueueItem_attempts[of api item s] p by (simp add: zs_def)
  have zsub: "subseq (zs @ ys) (item # rest)" if "subseq ys rest" for ys
    using that by (auto simp: zs_def)
  show ?case
  proof (cases r)
    case (Inr u)
    obtain ys where ys: "subseq ys rest"
      "attempts (snd (processItems api rest (sc + 1, fc, errs) (emit (ItemSynced (itemId item)) s1)))
         = attempts (emit (ItemSynced (itemId item)) s1) @ map itemId ys"
      using Cons.IH by blast
    have "attempts (snd (processItems api (item # rest) acc s)) = attempts s @ map itemId (zs @ ys)"
      using ys(2) p Inr acc a1 by (simp add: emit_def)
    then show ?thesis using zsub[OF ys(1)] by blast
  next
    case (Inl error)
    define msg where "msg = messageOr ''Unknown error'' error"
    define s2 where "s2 = emit (ItemFailed (itemId item) msg) s1"
    show ?thesis
    proof (cases "offlineQueueDB_updateQueueItem (itemId item) (retryCount item + 1) (Some msg) (db s2)")
      case (Inl e)
      have "attempts (snd (processItems api (item # rest) acc s)) = attempts s @ map itemId (zs @ [])"
        using p \<open>r = Inl error\<close> acc a1 Inl by (simp add: emit_def msg_def s2_def Let_def)
      then show ?thesis using zsub[of "[]"] by blast
    next
      case (Inr d)
      obtain ys where ys: "subseq ys rest"
        "attempts (snd (processItems api rest (sc, fc + 1, errs @ [itemId item @ '': '' @ msg]) (s2\<lparr>db := d\<rparr>)))
           = attempts (s2\<lparr>db := d\<rparr>) @ map itemId ys"
        using Cons.IH by blast
      have "attempts (snd (processItems api (item # rest) acc s)) = attempts s @ map itemId (zs @ ys)"
        using ys(2) p \<open>r = Inl error\<close> acc a1 Inr by (simp add: emit_def msg_def s2_def Let_def)
      then show ?thesis using zsub[OF ys(1)] by blast
    qed
  qed
qed

lemma updateSyncStatus_attempts: "attempts (updateSyncStatus s) = attempts s"
  by (simp add: updateSyncStatus_def split: sum.splits)

lemma processQueue_try_attempts:
  "offlineQueueDB_getQueueItems (db s) = Inr q \<Longrightarrow>
     attempts (snd (processQueue_try api s))
       = (if q = [] then attempts s else attempts (snd (processItems api q (0, 0, []) s)))"
  by (simp add: processQueue_try_def updateSyncStatus_attempts emit_def Let_def
        split: prod.splits sum.splits)

lemma processQueue_try_attempts_unavailable:
  "offlineQueueDB_getQueueItems (db s) = Inl e \<Longrightarrow>
     attempts (snd (processQueue_try api s)) = attempts s"
  by (simp add: processQueue_try_def)

lemma processQueue_attempts:
  "\<not> isProcessing s \<Longrightarrow> isOnline s \<Longrightarrow>
     attempts (snd (processQueue api s))
       = attempts (snd (processQueue_try api (emit SyncStarted (s\<lparr>isProcessing := True\<rparr>))))"
  by (simp add: processQueue_def emit_def split: prod.splits sum.splits)

lemma processQueue_attempts_subseq:
  "\<exists>ys. subseq ys (sort_key timestamp (offlineQueue (db s)))
        \<and> attempts (snd (processQueue api s)) = attempts s @ map itemId ys"
proof (cases "isProcessing s \<or> \<not> isOnline s")
  case True
  then have "attempts (snd (processQueue api s)) = attempts s @ map itemId []"
    by (simp add: processQueue_def)
  moreover have "subseq [] (sort_key timestamp (offlineQueue (db s)))" by simp
  ultimately show ?thesis by blast
next
  case False
  define s0 where "s0 = emit SyncStarted (s\<lparr>isProcessing := True\<rparr>)"
  have a0: "attempts s0 = attempts s" and d0: "db s0 = db s" by (simp_all add: s0_def emit_def)
  have pq: "attempts (snd (processQueue api s)) = attempts (snd (processQueue_try api s0))"
    using False processQueue_attempts[of s api] by (simp add: s0_def)
  show ?thesis
  proof (cases "offlineQueueDB_getQueueItems (db s)")
    case (Inl e)
    then have "attempts (snd (processQueue api s)) = attempts s @ map itemId []"
      using pq processQueue_try_attempts_unavailable[of s0 e api] a0 d0 by simp
    moreover have "subseq [] (sort_key timestamp (offlineQueue (db s)))" by simp
    ultimately show ?thesis by blast
  next
    case (Inr queueItems)
    then have q: "queueItems = sort_key timestamp (offlineQueue (db s))"
      by (auto simp: offlineQueueDB_getQueueItems_def withDB_def split: option.splits)
    obtain ys where ys: "subseq ys queueItems"
      "attempts (snd (processItems api queueItems (0, 0, []) s0)) = attempts s0 @ map itemId ys"
      using processItems_attempts_subseq by blast
    have "attempts (snd (processQueue api s)) = attempts s @ map itemId (if queueItems = [] then [] else ys)"
      using pq processQueue_try_attempts[of s0 queueItems api] Inr ys(2) a0 d0 by simp
    moreover have "subseq (if queueItems = [] then [] else ys) queueItems"
      using ys(1) by simp
    ultimately show ?thesis unfolding q by blast
  qed
qed

lemma processQueueItem_success:
  assumes "unavailable (db s) = None" "retryCount item < MAX_RETRIES" "itemType item = CREATE_REPORT"
    and "api (length (attempts s)) (submissionData (itemData item)) = Inr r"
  shows "processQueueItem api item s
           = (Inr (), s\<lparr>attempts := attempts s @ [itemId item],
                         db := (db s)\<lparr>offlineQueue := os_delete (itemId item) (offlineQueue (db s))\<rparr>\<rparr>)"
  using assms by (simp add: processQueueItem_def removeFromQueue_available Let_def)

lemma processItems_all_succeed:
  assumes "\<forall>n d. \<exists>r. api n d = Inr r"
  shows "unavailable (db s) = None \<Longrightarrow>
         \<forall>item\<in>set items. retryCount item < MAX_RETRIES \<and> itemType item = CREATE_REPORT \<Longrightarrow>
         \<exists>s'. processItems api items (sc, fc, errs) s = (Inr (sc + length items, fc, errs), s')
              \<and> attempts s' = attempts s @ map itemId items
              \<and> emitted s' = emitted s @ map (\<lambda>i. ItemSynced (itemId i)) items
              \<and> offlineQueue (db s') = filter (\<lambda>x. itemId x \<notin> itemId ` set items) (offlineQueue (db s))"
proof (induction items arbitrary: sc s)
  case Nil
  then show ?case by simp
next
  case (Cons item rest)
  obtain r where r: "api (length (attempts s)) (submissionData (itemData item)) = Inr r"
    using assms by blast
  define s1 where "s1 = s\<lparr>attempts := attempts s @ [itemId item],
                         db := (db s)\<lparr>offlineQueue := os_delete (itemId item) (offlineQueue (db s))\<rparr>\<rparr>"
  define s2 where "s2 = emit (ItemSynced (itemId item)) s1"
  have p: "processQueueItem api item s = (Inr (), s1)"
    unfolding s1_def using Cons.prems r by (intro processQueueItem_success) auto
  have av: "unavailable (db s2) = None" using Cons.prems(1) by (simp add: s2_def s1_def emit_def)
  obtain s' where s': "processItems api rest (sc + 1, fc, errs) s2 = (Inr (sc + 1 + length rest, fc, errs), s')"
    "attempts s' = attempts s2 @ map itemId rest"
    "emitted s' = emitted s2 @ map (\<lambda>i. ItemSynced (itemId i)) rest"
    "offlineQueue (db s') = filter (\<lambda>x. itemId x \<notin> itemId ` set rest) (offlineQueue (db s2))"
    using Cons.IH[OF av, of "sc + 1"] Cons.prems(2) by auto
  have step: "processItems api (item # rest) (sc, fc, errs) s = processItems api rest (sc + 1, fc, errs) s2"
    using p by (simp add: s2_def)
  have "processItems api (item # rest) (sc, fc, errs) s = (Inr (sc + length (item # rest), fc, errs), s')"
    using step s'(1) by simp
  moreover have "attempts s' = attempts s @ map itemId (item # rest)"
    using s'(2) by (simp add: s2_def s1_def emit_def)
  moreover have "emitted s' = emitted s @ map (\<lambda>i. ItemSynced (itemId i)) (item # rest)"
    using s'(3) by (simp add: s2_def s1_def emit_def)
  moreover have "offlineQueue (db s') = filter (\<lambda>x. itemId x \<notin> itemId ` set (item # rest)) (offlineQueue (db s))"
    using s'(4) by (auto simp: s2_def s1_def emit_def os_delete_def intro: filter_cong)
  ultimately show ?case by blast
qed

lemma processQueue_all_succeed:
  assumes "\<forall>n d. \<exists>r. api n d = Inr r"
    and "\<not> isProcessing s" "isOnline s" "unavailable (db s) = None"
    and "\<forall>item\<in>set (offlineQueue (db s)). retryCount item < MAX_RETRIES \<and> itemType item = CREATE_REPORT"
  shows "attempts (snd (processQueue api s))
           = attempts s @ map itemId (sort_key timestamp (offlineQueue (db s)))"
proof -
  define s0 where "s0 = emit SyncStarted (s\<lparr>isProcessing := True\<rparr>)"
  define q where "q = sort_key timestamp (offlineQueue (db s))"
  have a0: "attempts s0 = attempts s" and d0: "db s0 = db s" by (simp_all add: s0_def emit_def)
  have g: "offlineQueueDB_getQueueItems (db s0) = Inr q"
    using assms(4) d0 by (simp add: getQueueItems_available q_def)
  have pq: "attempts (snd (processQueue api s)) = attempts (snd (processQueue_try api s0))"
    using assms(2,3) processQueue_attempts[of s api] by (simp add: s0_def)
  have el: "\<forall>item\<in>set q. retryCount item < MAX_RETRIES \<and> itemType item = CREATE_REPORT"
    using assms(5) by (simp add: q_def)
  obtain s' where "processItems api q (0, 0, []) s0 = (Inr (0 + length q, 0, []), s')"
    "attempts s' = attempts s0 @ map itemId q"
    using processItems_all_succeed[OF assms(1), of s0 q 0 0 "[]"] assms(4) d0 el by auto
  then have "attempts (snd (processQueue_try api s0)) = attempts s @ map itemId q"
    using processQueue_try_attempts[OF g, of api] a0 by auto
  then show ?thesis using pq by (simp add: q_def)
qed

text \<open>
  Claim C3: the submissions of one cycle are made one after the other in the order of
  the enqueue timestamps. Whatever the remote interface answers, the submissions a call
  of \<^verbatim>\<open>processQueue\<close> adds to the trace are those of a subsequence of the queue sorted by
  timestamp, in that order, and this list is ascending in the timestamps. When every
  remote call succeeds and every queued item is a \<^verbatim>\<open>CREATE_REPORT\<close> with retries left (as
  every item is after \<^verbatim>\<open>addToQueue\<close>), a cycle started by an idle, online manager on a
  reachable store submits all items, oldest first.
\<close>

theorem processQueue_fifo:
  "(\<exists>ys. subseq ys (sort_key timestamp (offlineQueue (db s)))
        \<and> attempts (snd (processQueue api s)) = attempts s @ map itemId ys)
   \<and> sorted (map timestamp (sort_key timestamp (offlineQueue (db s))))
   \<and> ((\<forall>n d. \<exists>r. api n d = Inr r) \<longrightarrow> \<not> isProcessing s \<longrightarrow> isOnline s \<longrightarrow>
        unavailable (db s) = None \<longrightarrow>
        (\<forall>item\<in>set (offlineQueue (db s)).
            retryCount item < MAX_RETRIES \<and> itemType item = CREATE_REPORT) \<longrightarrow>
        attempts (snd (processQueue api s))
          = attempts s @ map itemId (sort_key timestamp (offlineQueue (db s))))"
  using processQueue_attempts_subseq[of s api] processQueue_all_succeed[of api s]
  by (simp add: sorted_sort_key del: sort_key_simps)

text \<open>
  Three items whose key order (a, b, c) differs from their enqueue order (c at 10, a at
  20, b at 30) are submitted in enqueue order.
\<close>

theorem processQueue_fifo_witness:
  "attempts (snd (processQueue alwaysSucceeds threeQueued)) = [''queue_c'', ''queue_a'', ''queue_b'']
   \<and> map timestamp (sort_key timestamp (offlineQueue (db threeQueued))) = [10, 20, 30]"
  using processQueue_fifo[of threeQueued alwaysSucceeds]
  by (simp add: threeQueued_def idle_def emptyDb_def queued_def alwaysSucceeds_def isOnline_def
        MAX_RETRIES_def)

section \<open>A cycle, item by item\<close>

text \<open>
  An item that has used up its retries is removed, and the bookkeeping that follows looks
  for the removed record: the loop ends with the rejection of \<^verbatim>\<open>updateQueueItem\<close>.
\<close>

lemma processItems_drop:
  assumes "unavailable (db s) = None" "retryCount x \<ge> MAX_RETRIES"
  shows "processItems api (x # rest) acc s
           = (Inl (Error (''Queue item '' @ itemId x @ '' not found'')),
              emit (ItemFailed (itemId x) ''Max retries exceeded'')
                (s\<lparr>db := (db s)\<lparr>offlineQueue := os_delete (itemId x) (offlineQueue (db s))\<rparr>\<rparr>))"
proof -
  obtain sc fc errs where acc: "acc = (sc, fc, errs)" by (cases acc) auto
  have p: "processQueueItem api x s
             = (Inl (Error ''Max retries exceeded''),
                s\<lparr>db := (db s)\<lparr>offlineQueue := os_delete (itemId x) (offlineQueue (db s))\<rparr>\<rparr>)"
    using assms by (simp add: processQueueItem_def removeFromQueue_available)
  show ?thesis
    unfolding acc using assms(1)
    by (simp add: p messageOr_def Let_def emit_def offlineQueueDB_updateQueueItem_def withDB_def
          os_get_os_delete)
qed

lemma processItems_step:
  assumes "unavailable (db s) = None" "distinct (map itemId (offlineQueue (db s)))"
    and "retryCount y < MAX_RETRIES" "os_get (itemId y) (offlineQueue (db s)) \<noteq> None"
  shows "\<exists>acc' s'. processItems api (y # rest) acc s = processItems api rest acc' s'
       \<and> unavailable (db s') = None
       \<and> distinct (map itemId (offlineQueue (db s')))
       \<and> (\<forall>k. k \<noteq> itemId y \<longrightarrow> os_get k (offlineQueue (db s')) = os_get k (offlineQueue (db s)))
       \<and> (\<exists>ys. subseq ys [y] \<and> attempts s' = attempts s @ map itemId ys)
       \<and> (\<exists>evs. emitted s' = emitted s @ evs)
       \<and> isProcessing s' = isProcessing s"
proof -
  obtain sc fc errs where acc: "acc = (sc, fc, errs)" by (cases acc) auto
  obtain stored where st: "os_get (itemId y) (offlineQueue (db s)) = Some stored"
    using assms(4) by blast
  have sid: "itemId stored = itemId y" using os_get_SomeD[OF st] by simp
  have failure: ?thesis
    if p: "processQueueItem api y s = (Inl err, s1)"
      and s1: "db s1 = db s" "emitted s1 = emitted s" "isProcessing s1 = isProcessing s"
              "\<exists>ys. subseq ys [y] \<and> attempts s1 = attempts s @ map itemId ys"
    for err s1
  proof -
    define msg where "msg = messageOr ''Unknown error'' err"
    define upd where "upd = stored\<lparr>retryCount := retryCount y + 1,
                                   lastError := (if truthy (Some msg) then Some msg else lastError stored)\<rparr>"
    define s' where "s' = (emit (ItemFailed (itemId y) msg) s1)
                            \<lparr>db := (db s)\<lparr>offlineQueue := os_put upd (offlineQueue (db s))\<rparr>\<rparr>"
    have u: "offlineQueueDB_updateQueueItem (itemId y) (retryCount y + 1) (Some msg)
               (db (emit (ItemFailed (itemId y) msg) s1))
             = Inr ((db s)\<lparr>offlineQueue := os_put upd (offlineQueue (db s))\<rparr>)"
      using assms(1) st s1(1)
      by (simp add: offlineQueueDB_updateQueueItem_def withDB_def emit_def upd_def)
    have eq: "processItems api (y # rest) acc s
                = processItems api rest (sc, fc + 1, errs @ [itemId y @ '': '' @ msg]) s'"
      unfolding acc using p u by (simp add: Let_def msg_def[symmetric] s'_def)
    have uid: "itemId upd = itemId y" by (simp add: upd_def sid)
    have "unavailable (db s') = None" using assms(1) by (simp add: s'_def)
    moreover have "distinct (map itemId (offlineQueue (db s')))"
      using distinct_os_put[OF assms(2)] by (simp add: s'_def)
    moreover have "\<forall>k. k \<noteq> itemId y \<longrightarrow> os_get k (offlineQueue (db s')) = os_get k (offlineQueue (db s))"
      using os_get_os_put[OF assms(2)] uid by (simp add: s'_def)
    moreover have "\<exists>ys. subseq ys [y] \<and> attempts s' = attempts s @ map itemId ys"
      using s1(4) by (simp add: s'_def emit_def)
    moreover have "\<exists>evs. emitted s' = emitted s @ evs"
      using s1(2) by (simp add: s'_def emit_def)
    moreover have "isProcessing s' = isProcessing s"
      using s1(3) by (simp add: s'_def emit_def)
    ultimately show ?thesis using eq by blast
  qed
  show ?thesis
  proof (cases "itemType y = CREATE_REPORT")
    case False
    have "processQueueItem api y s
            = (Inl (Error (''Unsupported queue item type: '' @ typeName (itemType y))), s)"
      using False assms(3) by (simp add: processQueueItem_def)
    moreover have "\<exists>ys. subseq ys [y] \<and> attempts s = attempts s @ map itemId ys"
      by (rule exI[of _ "[]"]) simp
    ultimately show ?thesis using failure by blast
  next
    case True
    define s1 where "s1 = s\<lparr>attempts := attempts s @ [itemId y]\<rparr>"
    show ?thesis
    proof (cases "api (length (attempts s)) (submissionData (itemData y))")
      case (Inl err)
      have "processQueueItem api y s = (Inl err, s1)"
        using True assms(3) Inl by (simp add: processQueueItem_def s1_def Let_def)
      moreover have "\<exists>ys. subseq ys [y] \<and> attempts s1 = attempts s @ map itemId ys"
        by (rule exI[of _ "[y]"]) (simp add: s1_def)
      ultimately show ?thesis using failure[of err s1] by (simp add: s1_def)
    next
      case (Inr r)
      define s' where "s' = emit (ItemSynced (itemId y))
          (s\<lparr>attempts := attempts s @ [itemId y],
             db := (db s)\<lparr>offlineQueue := os_delete (itemId y) (offlineQueue (db s))\<rparr>\<rparr>)"
      have eq: "processItems api (y # rest) acc s = processItems api rest (sc + 1, fc, errs) s'"
        unfolding acc using processQueueItem_success[of s y api r] assms(1,3) True Inr
        by (simp add: s'_def)
      have "unavailable (db s') = None" using assms(1) by (simp add: s'_def emit_def)
      moreover have "distinct (map itemId (offlineQueue (db s')))"
        using distinct_os_delete[OF assms(2)] by (simp add: s'_def emit_def)
      moreover have "\<forall>k. k \<noteq> itemId y \<longrightarrow> os_get k (offlineQueue (db s')) = os_get k (offlineQueue (db s))"
        by (simp add: s'_def emit_def os_get_os_delete)
      moreover have "\<exists>ys. subseq ys [y] \<and> attempts s' = attempts s @ map itemId ys"
        by (rule exI[of _ "[y]"]) (simp add: s'_def emit_def)
      moreover have "\<exists>evs. emitted s' = emitted s @ evs"
        by (simp add: s'_def emit_def)
      moreover have "isProcessing s' = isProcessing s"
        by (simp add: s'_def emit_def)
      ultimately show ?thesis using eq by blast
    qed
  qed
qed

text \<open>
  Items with retries left never end the loop on a reachable store: each is either
  removed after a successful submission or updated, and only its own record is touched.
\<close>

lemma processItems_prefix:
  assumes "\<forall>y\<in>set pre. retryCount y < MAX_RETRIES"
  shows "unavailable (db s) = None \<Longrightarrow> distinct (map itemId (offlineQueue (db s))) \<Longrightarrow>
         distinct (map itemId pre) \<Longrightarrow>
         \<forall>y\<in>set pre. os_get (itemId y) (offlineQueue (db s)) \<noteq> None \<Longrightarrow>
         \<exists>acc' s'. processItems api (pre @ rest) acc s = processItems api rest acc' s'
           \<and> unavailable (db s') = None
           \<and> distinct (map itemId (offlineQueue (db s')))
           \<and> (\<forall>k. k \<notin> itemId ` set pre \<longrightarrow> os_get k (offlineQueue (db s')) = os_get k (offlineQueue (db s)))
           \<and> (\<exists>ys. subseq ys pre \<and> attempts s' = attempts s @ map itemId ys)
           \<and> (\<exists>evs. emitted s' = emitted s @ evs)
           \<and> isProcessing s' = isProcessing s"
  using assms
proof (induction pre arbitrary: acc s)
  case Nil
  have "\<exists>ys. subseq ys [] \<and> attempts s = attempts s @ map itemId ys"
    by (rule exI[of _ "[]"]) simp
  moreover have "\<exists>evs. emitted s = emitted s @ evs" by simp
  ultimately show ?case
    using Nil.prems(1,2) by (intro exI[of _ acc] exI[of _ s]) simp
next
  case (Cons y pre)
  have rc: "retryCount y < MAX_RETRIES" and ex: "os_get (itemId y) (offlineQueue (db s)) \<noteq> None"
    using Cons.prems by auto
  obtain acc1 s1 where s1:
    "processItems api (y # (pre @ rest)) acc s = processItems api (pre @ rest) acc1 s1"
    "unavailable (db s1) = None"
    "distinct (map itemId (offlineQueue (db s1)))"
    "\<forall>k. k \<noteq> itemId y \<longrightarrow> os_get k (offlineQueue (db s1)) = os_get k (offlineQueue (db s))"
    "\<exists>ys. subseq ys [y] \<and> attempts s1 = attempts s @ map itemId ys"
    "\<exists>evs. emitted s1 = emitted s @ evs"
    "isProcessing s1 = isProcessing s"
    using processItems_step[OF Cons.prems(1,2) rc ex, of api "pre @ rest" acc] by blast
  have dpre: "distinct (map itemId pre)" and ny: "itemId y \<notin> itemId ` set pre"
    using Cons.prems(3) by auto
  have ex1: "\<forall>z\<in>set pre. os_get (itemId z) (offlineQueue (db s1)) \<noteq> None"
  proof
    fix z assume z: "z \<in> set pre"
    then have "itemId z \<noteq> itemId y" using ny by (metis imageI)
    then show "os_get (itemId z) (offlineQueue (db s1)) \<noteq> None"
      using s1(4) Cons.prems(4) z by simp
  qed
  have rcs: "\<forall>z\<in>set pre. retryCount z < MAX_RETRIES" using Cons.prems(5) by simp
  obtain acc2 s2 where s2:
    "processItems api (pre @ rest) acc1 s1 = processItems api rest acc2 s2"
    "unavailable (db s2) = None"
    "distinct (map itemId (offlineQueue (db s2)))"
    "\<forall>k. k \<notin> itemId ` set pre \<longrightarrow> os_get k (offlineQueue (db s2)) = os_get k (offlineQueue (db s1))"
    "\<exists>ys. subseq ys pre \<and> attempts s2 = attempts s1 @ map itemId ys"
    "\<exists>evs. emitted s2 = emitted s1 @ evs"
    "isProcessing s2 = isProcessing s1"
    using Cons.IH[OF s1(2,3) dpre ex1 rcs, of acc1] by blast
  have "processItems api ((y # pre) @ rest) acc s = processItems api rest acc2 s2"
    using s1(1) s2(1) by simp
  moreover have "\<forall>k. k \<notin> itemId ` set (y # pre) \<longrightarrow>
      os_get k (offlineQueue (db s2)) = os_get k (offlineQueue (db s))"
    using s1(4) s2(4) by simp
  moreover have "\<exists>ys. subseq ys (y # pre) \<and> attempts s2 = attempts s @ map itemId ys"
  proof -
    obtain ys1 where ys1: "subseq ys1 [y]" "attempts s1 = attempts s @ map itemId ys1"
      using s1(5) by blast
    obtain ys2 where ys2: "subseq ys2 pre" "attempts s2 = attempts s1 @ map itemId ys2"
      using s2(5) by blast
    have "subseq (ys1 @ ys2) ([y] @ pre)" using ys1(1) ys2(1) by (rule list_emb_append_mono)
    moreover have "attempts s2 = attempts s @ map itemId (ys1 @ ys2)"
      using ys1(2) ys2(2) by simp
    ultimately show ?thesis by (metis append_Cons append_Nil)
  qed
  moreover have "\<exists>evs. emitted s2 = emitted s @ evs"
    using s1(6) s2(6) by auto
  moreover have "isProcessing s2 = isProcessing s"
    using s1(7) s2(7) by simp
  ultimately show ?case using s2(2,3) by blast
qed

lemma distinct_ids_sort_key:
  "distinct (map itemId (sort_key timestamp xs)) = distinct (map itemId xs)"
  by (simp add: distinct_map)

lemma processQueue_drop_state:
  assumes "\<not> isProcessing s" "isOnline s" "unavailable (db s) = None"
    and "distinct (map itemId (offlineQueue (db s)))"
    and "sort_key timestamp (offlineQueue (db s)) = pre @ x # post"
    and "\<forall>y\<in>set pre. retryCount y < MAX_RETRIES"
    and "retryCount x \<ge> MAX_RETRIES"
  shows "\<exists>s1 ys evs. processQueue api s
           = (Inr (), (emit (SyncFailedError (''Queue item '' @ itemId x @ '' not found''))
                        (emit (ItemFailed (itemId x) ''Max retries exceeded'')
                           (s1\<lparr>db := (db s1)\<lparr>offlineQueue := os_delete (itemId x) (offlineQueue (db s1))\<rparr>\<rparr>)))
                      \<lparr>isProcessing := False\<rparr>)
         \<and> (\<forall>k. k \<notin> itemId ` set pre \<longrightarrow> os_get k (offlineQueue (db s1)) = os_get k (offlineQueue (db s)))
         \<and> subseq ys pre \<and> attempts s1 = attempts s @ map itemId ys
         \<and> emitted s1 = emitted s @ SyncStarted # evs"
proof -
  define s0 where "s0 = emit SyncStarted (s\<lparr>isProcessing := True\<rparr>)"
  have d0: "db s0 = db s" and a0: "attempts s0 = attempts s"
    and e0: "emitted s0 = emitted s @ [SyncStarted]"
    by (simp_all add: s0_def emit_def)
  have g: "offlineQueueDB_getQueueItems (db s0) = Inr (pre @ x # post)"
    using assms(3,5) d0 by (simp add: getQueueItems_available)
  have dsnap: "distinct (map itemId (pre @ x # post))"
    using assms(4) distinct_ids_sort_key[of "offlineQueue (db s)"] assms(5) by simp
  then have dpre: "distinct (map itemId pre)" by simp
  have mem: "set (pre @ x # post) = set (offlineQueue (db s))"
    using assms(5) set_sort[of timestamp "offlineQueue (db s)"] by simp
  have ex: "\<forall>y\<in>set pre. os_get (itemId y) (offlineQueue (db s0)) \<noteq> None"
  proof
    fix y assume "y \<in> set pre"
    then have "y \<in> set (offlineQueue (db s))" using mem by auto
    then show "os_get (itemId y) (offlineQueue (db s0)) \<noteq> None"
      using os_get_Some_iff[OF assms(4), of "itemId y" y] d0 by simp
  qed
  have av0: "unavailable (db s0) = None"
    and ds0: "distinct (map itemId (offlineQueue (db s0)))"
    using assms(3,4) d0 by simp_all
  obtain acc1 s1 where s1:
    "processItems api (pre @ x # post) (0, 0, []) s0 = processItems api (x # post) acc1 s1"
    "unavailable (db s1) = None"
    "\<forall>k. k \<notin> itemId ` set pre \<longrightarrow> os_get k (offlineQueue (db s1)) = os_get k (offlineQueue (db s0))"
    "\<exists>ys. subseq ys pre \<and> attempts s1 = attempts s0 @ map itemId ys"
    "\<exists>evs. emitted s1 = emitted s0 @ evs"
    using processItems_prefix[OF assms(6) av0 ds0 dpre ex, of api "x # post" "(0, 0, [])"]
    by blast
  define s2 where "s2 = emit (ItemFailed (itemId x) ''Max retries exceeded'')
      (s1\<lparr>db := (db s1)\<lparr>offlineQueue := os_delete (itemId x) (offlineQueue (db s1))\<rparr>\<rparr>)"
  have pi: "processItems api (pre @ x # post) (0, 0, []) s0
              = (Inl (Error (''Queue item '' @ itemId x @ '' not found'')), s2)"
    unfolding s1(1) s2_def by (rule processItems_drop[OF s1(2) assms(7)])
  have pt: "processQueue_try api s0 = (Inl (Error (''Queue item '' @ itemId x @ '' not found'')), s2)"
    using g pi by (simp add: processQueue_try_def)
  have pq: "processQueue api s
      = (Inr (), (emit (SyncFailedError (''Queue item '' @ itemId x @ '' not found'')) s2)
                   \<lparr>isProcessing := False\<rparr>)"
    using assms(1,2) pt by (simp add: processQueue_def s0_def[symmetric] messageOr_def)
  obtain ys where ys: "subseq ys pre" "attempts s1 = attempts s @ map itemId ys"
    using s1(4) a0 by auto
  obtain evs where evs: "emitted s1 = emitted s @ SyncStarted # evs"
    using s1(5) e0 by auto
  show ?thesis
    using pq s1(3) ys evs unfolding s2_def d0 by blast
qed

text \<open>
  Claim C10: an idle, online manager starts a cycle on a reachable store whose records
  have distinct ids; in the queue sorted by timestamp, \<open>x\<close> is the first item that has used
  up its retries, \<open>pre\<close> the items before it and \<open>post\<close> the items after it. Then the cycle
  removes \<open>x\<close> without submitting it, emits \<^verbatim>\<open>item-failed\<close> for it, and ends with a
  \<^verbatim>\<open>sync-failed\<close> event whose error is \<^verbatim>\<open>Queue item <id> not found\<close>, the rejection of
  the update of the removed record; the promise still resolves. No item of \<open>post\<close> is
  submitted in this cycle, and each of them is still in the store as it was.
\<close>

theorem drop_aborts_cycle:
  assumes "\<not> isProcessing s" "isOnline s" "unavailable (db s) = None"
    and "distinct (map itemId (offlineQueue (db s)))"
    and "sort_key timestamp (offlineQueue (db s)) = pre @ x # post"
    and "\<forall>y\<in>set pre. retryCount y < MAX_RETRIES"
    and "retryCount x \<ge> MAX_RETRIES"
  shows "fst (processQueue api s) = Inr ()
     \<and> (\<exists>evs. emitted (snd (processQueue api s))
           = emitted s @ SyncStarted # evs
               @ [ItemFailed (itemId x) ''Max retries exceeded'',
                  SyncFailedError (''Queue item '' @ itemId x @ '' not found'')])
     \<and> os_get (itemId x) (offlineQueue (db (snd (processQueue api s)))) = None
     \<and> (\<forall>y\<in>set post.
           os_get (itemId y) (offlineQueue (db (snd (processQueue api s)))) = Some y
           \<and> itemId y \<notin> set (drop (length (attempts s)) (attempts (snd (processQueue api s)))))
     \<and> \<not> isProcessing (snd (processQueue api s))"
proof -
  obtain s1 ys evs where pq: "processQueue api s
           = (Inr (), (emit (SyncFailedError (''Queue item '' @ itemId x @ '' not found''))
                        (emit (ItemFailed (itemId x) ''Max retries exceeded'')
                           (s1\<lparr>db := (db s1)\<lparr>offlineQueue := os_delete (itemId x) (offlineQueue (db s1))\<rparr>\<rparr>)))
                      \<lparr>isProcessing := False\<rparr>)"
    and fr: "\<forall>k. k \<notin> itemId ` set pre \<longrightarrow> os_get k (offlineQueue (db s1)) = os_get k (offlineQueue (db s))"
    and ys: "subseq ys pre" "attempts s1 = attempts s @ map itemId ys"
    and evs: "emitted s1 = emitted s @ SyncStarted # evs"
    using processQueue_drop_state[OF assms, of api] by blast
  have dsnap: "distinct (map itemId (pre @ x # post))"
    using assms(4) distinct_ids_sort_key[of "offlineQueue (db s)"] assms(5) by simp
  have mem: "set (pre @ x # post) = set (offlineQueue (db s))"
    using assms(5) set_sort[of timestamp "offlineQueue (db s)"] by simp
  have e: "\<exists>evs. emitted (snd (processQueue api s))
           = emitted s @ SyncStarted # evs
               @ [ItemFailed (itemId x) ''Max retries exceeded'',
                  SyncFailedError (''Queue item '' @ itemId x @ '' not found'')]"
    using evs by (simp add: pq emit_def)
  have gone: "os_get (itemId x) (offlineQueue (db (snd (processQueue api s)))) = None"
    by (simp add: pq emit_def os_get_os_delete)
  have later: "\<forall>y\<in>set post.
           os_get (itemId y) (offlineQueue (db (snd (processQueue api s)))) = Some y
           \<and> itemId y \<notin> set (drop (length (attempts s)) (attempts (snd (processQueue api s))))"
  proof
    fix y assume y: "y \<in> set post"
    have "itemId x \<notin> itemId ` set post" "itemId ` set pre \<inter> itemId ` set post = {}"
      using dsnap by auto
    then have nx: "itemId y \<noteq> itemId x" and np: "itemId y \<notin> itemId ` set pre"
      using y by (metis imageI, metis IntI imageI empty_iff)
    have "y \<in> set (offlineQueue (db s))" using mem y by auto
    then have "os_get (itemId y) (offlineQueue (db s)) = Some y"
      using os_get_Some_iff[OF assms(4), of "itemId y" y] by simp
    then have a: "os_get (itemId y) (offlineQueue (db (snd (processQueue api s)))) = Some y"
      using fr np nx by (simp add: pq emit_def os_get_os_delete)
    have "set ys \<subseteq> set pre" using ys(1) by (auto dest: list_emb_set)
    then have "itemId y \<notin> itemId ` set ys" using np by auto
    then have b: "itemId y \<notin> set (drop (length (attempts s)) (attempts (snd (processQueue api s))))"
      using ys(2) by (simp add: pq emit_def)
    show "os_get (itemId y) (offlineQueue (db (snd (processQueue api s)))) = Some y
           \<and> itemId y \<notin> set (drop (length (attempts s)) (attempts (snd (processQueue api s))))"
      using a b by simp
  qed
  have "fst (processQueue api s) = Inr ()" by (simp add: pq)
  moreover have "\<not> isProcessing (snd (processQueue api s))" by (simp add: pq)
  ultimately show ?thesis using e gone later by blast
qed

text \<open>
  The theorem on a queue of three items of which the second has used up its retries.
\<close>

theorem drop_aborts_cycle_witness:
  "os_get ''queue_2_b'' (offlineQueue (db (snd (processQueue alwaysFails mixedQueue)))) = None
   \<and> os_get ''queue_3_c'' (offlineQueue (db (snd (processQueue alwaysFails mixedQueue))))
       = Some (queued ''queue_3_c'' 3 0 None)
   \<and> ''queue_3_c'' \<notin> set (attempts (snd (processQueue alwaysFails mixedQueue)))
   \<and> \<not> isProcessing (snd (processQueue alwaysFails mixedQueue))"
  using drop_aborts_cycle[of mixedQueue "[queued ''queue_1_a'' 1 1 (Some ''HTTP 500'')]"
      "queued ''queue_2_b'' 2 3 (Some ''HTTP 500'')" "[queued ''queue_3_c'' 3 0 None]" alwaysFails]
  by (simp add: mixedQueue_def idle_def emptyDb_def queued_def isOnline_def MAX_RETRIES_def)

section \<open>Retry and drop\<close>

lemma cycle_single_fail:
  assumes "\<not> isProcessing s" "isOnline s" "unavailable (db s) = None" "offlineQueue (db s) = [x]"
    and "retryCount x < MAX_RETRIES" "itemType x = CREATE_REPORT"
    and "api (length (attempts s)) (submissionData (itemData x)) = Inl err"
  shows "offlineQueue (db (cycle api s))
           = [x\<lparr>retryCount := retryCount x + 1,
                lastError := (if messageOr ''Unknown error'' err = [] then lastError x
                              else Some (messageOr ''Unknown error'' err))\<rparr>]"
    and "attempts (cycle api s) = attempts s @ [itemId x]"
    and "\<not> isProcessing (cycle api s)" and "isOnline (cycle api s)"
    and "unavailable (db (cycle api s)) = None"
  using assms
  by (simp_all add: cycle_def processQueue_def processQueue_try_def getQueueItems_available
        processQueueItem_def emit_def isOnline_def Let_def offlineQueueDB_updateQueueItem_def
        withDB_def os_get_def os_put_def os_delete_def truthy_def updateSyncStatus_frame)

lemma cycle_single_drop:
  assumes "\<not> isProcessing s" "isOnline s" "unavailable (db s) = None" "offlineQueue (db s) = [x]"
    and "retryCount x \<ge> MAX_RETRIES"
  shows "offlineQueue (db (cycle api s)) = []"
    and "attempts (cycle api s) = attempts s"
  using assms
  by (simp_all add: cycle_def processQueue_def processQueue_try_def getQueueItems_available
        processQueueItem_def emit_def isOnline_def Let_def offlineQueueDB_updateQueueItem_def
        withDB_def os_get_def os_put_def os_delete_def truthy_def removeFromQueue_available
        messageOr_def)

text \<open>
  Alone in the queue, an item whose submission always fails is submitted in three cycles
  and removed by the fourth, without a submission.
\<close>

lemma retry_then_drop_single:
  assumes idle: "\<not> isProcessing s" "isOnline s" "unavailable (db s) = None"
    and one: "offlineQueue (db s) = [x]" "retryCount x = 0" "itemType x = CREATE_REPORT"
    and fails: "\<forall>n d. \<exists>e. api n d = Inl e"
  shows "attempts ((cycle api ^^ 3) s) = attempts s @ [itemId x, itemId x, itemId x]"
    and "map retryCount (offlineQueue (db ((cycle api ^^ 3) s))) = [3]"
    and "offlineQueue (db ((cycle api ^^ 4) s)) = []"
    and "attempts ((cycle api ^^ 4) s) = attempts ((cycle api ^^ 3) s)"
    and "pending (getQueueStatus ((cycle api ^^ 3) s)) = 1"
    and "pending (getQueueStatus ((cycle api ^^ 4) s)) = 0"
proof -
  define Q where "Q k t \<longleftrightarrow>
    (\<exists>y. offlineQueue (db t) = [y] \<and> itemId y = itemId x \<and> itemType y = CREATE_REPORT
          \<and> retryCount y = k)
    \<and> \<not> isProcessing t \<and> isOnline t \<and> unavailable (db t) = None
    \<and> attempts t = attempts s @ replicate k (itemId x)" for k t
  have step: "Q (Suc k) (cycle api t)" if q: "Q k t" and k: "k < MAX_RETRIES" for k t
  proof -
    obtain y where y: "offlineQueue (db t) = [y]" "itemId y = itemId x"
      "itemType y = CREATE_REPORT" "retryCount y = k"
      using q unfolding Q_def by blast
    have t: "\<not> isProcessing t" "isOnline t" "unavailable (db t) = None"
      "attempts t = attempts s @ replicate k (itemId x)"
      using q unfolding Q_def by auto
    obtain e where e: "api (length (attempts t)) (submissionData (itemData y)) = Inl e"
      using fails by blast
    have rc: "retryCount y < MAX_RETRIES" using y(4) k by simp
    note c = cycle_single_fail[where api=api and err=e, OF t(1,2,3) y(1) rc y(3) e]
    have "attempts (cycle api t) = attempts s @ replicate (Suc k) (itemId x)"
      using c(2) t(4) y(2) by (simp add: replicate_append_same)
    then show ?thesis
      unfolding Q_def using c(1,3,4,5) y by simp
  qed
  have q0: "Q 0 s" unfolding Q_def using idle one by simp
  have q1: "Q 1 (cycle api s)" using step[OF q0] by (simp add: MAX_RETRIES_def)
  have q2: "Q 2 (cycle api (cycle api s))"
    using step[OF q1] by (simp add: MAX_RETRIES_def numeral_2_eq_2)
  have q3: "Q 3 (cycle api (cycle api (cycle api s)))"
    using step[OF q2] by (simp add: MAX_RETRIES_def numeral_3_eq_3 numeral_2_eq_2)
  have i3: "(cycle api ^^ 3) s = cycle api (cycle api (cycle api s))"
    by (simp add: numeral_3_eq_3)
  have i4: "(cycle api ^^ 4) s = cycle api ((cycle api ^^ 3) s)"
    by (simp add: eval_nat_numeral)
  obtain y where y: "offlineQueue (db ((cycle api ^^ 3) s)) = [y]" "retryCount y = 3"
    and t: "\<not> isProcessing ((cycle api ^^ 3) s)" "isOnline ((cycle api ^^ 3) s)"
      "unavailable (db ((cycle api ^^ 3) s)) = None"
      "attempts ((cycle api ^^ 3) s) = attempts s @ replicate 3 (itemId x)"
    using q3 unfolding Q_def i3 by blast
  have rc: "retryCount y \<ge> MAX_RETRIES" using y(2) by (simp add: MAX_RETRIES_def)
  note d = cycle_single_drop[where api=api, OF t(1,2,3) y(1) rc]
  show "attempts ((cycle api ^^ 3) s) = attempts s @ [itemId x, itemId x, itemId x]"
    using t(4) by (simp add: numeral_3_eq_3)
  show "map retryCount (offlineQueue (db ((cycle api ^^ 3) s))) = [3]"
    using y by simp
  show "offlineQueue (db ((cycle api ^^ 4) s)) = []"
    unfolding i4 by (rule d(1))
  show "attempts ((cycle api ^^ 4) s) = attempts ((cycle api ^^ 3) s)"
    unfolding i4 by (rule d(2))
  show "pending (getQueueStatus ((cycle api ^^ 3) s)) = 1"
    using getQueueStatus_available(1)[OF t(3)] y(1) by simp
  have "unavailable (db ((cycle api ^^ 4) s)) = None"
    unfolding i4 using t(1,2,3)
    by (simp add: cycle_def processQueue_def processQueue_try_def processQueueItem_def
          getQueueItems_available y(1) rc removeFromQueue_available emit_def Let_def
          offlineQueueDB_updateQueueItem_def withDB_def os_get_os_delete isOnline_def)
  then show "pending (getQueueStatus ((cycle api ^^ 4) s)) = 0"
    using getQueueStatus_available(1) \<open>offlineQueue (db ((cycle api ^^ 4) s)) = []\<close> by simp
qed

text \<open>
  Claim C2 says that every item whose submission always fails is submitted exactly three
  times and is removed, without a submission, by the next cycle. With two such items in
  the queue this fails for the younger one: after three cycles both have retry count 3;
  the fourth cycle removes the older item and then breaks off, so the younger item is
  neither submitted nor removed, and one item is still pending.
\<close>

theorem second_exhausted_item_survives:
  "map (\<lambda>i. (itemId i, retryCount i)) (offlineQueue (db ((cycle alwaysFails ^^ 3) twoQueued)))
     = [(''queue_1_a'', 3), (''queue_2_b'', 3)]
   \<and> map (\<lambda>i. (itemId i, retryCount i)) (offlineQueue (db ((cycle alwaysFails ^^ 4) twoQueued)))
     = [(''queue_2_b'', 3)]
   \<and> pending (getQueueStatus ((cycle alwaysFails ^^ 4) twoQueued)) = 1
   \<and> attempts ((cycle alwaysFails ^^ 4) twoQueued)
     = [''queue_1_a'', ''queue_2_b'', ''queue_1_a'', ''queue_2_b'', ''queue_1_a'', ''queue_2_b'']"
  by code_simp

section \<open>The duplicate detector\<close>

subsection \<open>The formula in arithmetic without rounding\<close>

lemma atan2_sin_cos:
  assumes "0 \<le> t" "t \<le> pi / 2"
  shows "atan2 (sin t) (cos t) = t"
proof (cases "t < pi / 2")
  case True
  then have "0 < cos t" using assms(1) by (intro cos_gt_zero_pi) auto
  moreover have "arctan (tan t) = t" using True assms(1) by (intro arctan_tan) auto
  ultimately show ?thesis by (simp add: atan2_def tan_def)
next
  case False
  then have e: "t = pi / 2" using assms(2) by simp
  have "atan2 (sin (pi / 2)) (cos (pi / 2)) = pi / 2" by (simp add: atan2_def)
  then show ?thesis unfolding e .
qed

lemma haversine_exact_unfold:
  "haversine exact a b =
     (let p = (latitude b - latitude a) * pi / 180 / 2;
          q = (longitude b - longitude a) * pi / 180 / 2;
          h = sin p * sin p + cos (latitude a * pi / 180) * cos (latitude b * pi / 180) * sin q * sin q
      in if h < 0 \<or> 1 - h < 0 then None
         else Some (6371000 * (2 * atan2 (sqrt h) (sqrt (1 - h)))))"
  by (simp add: haversine_def exact_def toRad_def jsSqrt_def Let_def)

lemma half_angle:
  assumes "0 \<le> h" "h \<le> 1"
  shows "2 * atan2 (sqrt h) (sqrt (1 - h)) = arccos (1 - 2 * h)"
proof -
  define th where "th = arccos (1 - 2 * h)"
  have r: "- 1 \<le> 1 - 2 * h" "1 - 2 * h \<le> 1" using assms by simp_all
  have c: "cos th = 1 - 2 * h" unfolding th_def using r by (rule cos_arccos)
  have b: "0 \<le> th" "th \<le> pi" unfolding th_def using r by (simp_all add: arccos_lbound arccos_ubound)
  define t where "t = th / 2"
  have tb: "0 \<le> t" "t \<le> pi / 2" using b by (simp_all add: t_def)
  have "cos th = 1 - 2 * (sin t)\<^sup>2" using cos_double_sin[of t] by (simp add: t_def)
  then have s2: "(sin t)\<^sup>2 = h" using c by simp
  then have c2: "(cos t)\<^sup>2 = 1 - h" using sin_cos_squared_add[of t] by simp
  have sn: "0 \<le> sin t" using tb by (intro sin_ge_zero) auto
  have cn: "0 \<le> cos t" using tb by (intro cos_ge_zero) auto
  have "sqrt h = sin t" using s2 sn by (metis real_sqrt_abs abs_of_nonneg)
  moreover have "sqrt (1 - h) = cos t" using c2 cn by (metis real_sqrt_abs abs_of_nonneg)
  ultimately have "atan2 (sqrt h) (sqrt (1 - h)) = t" using atan2_sin_cos[OF tb] by simp
  then show ?thesis by (simp add: t_def th_def)
qed

lemma haversine_great_circle:
  assumes "\<bar>latitude a\<bar> \<le> 90" "\<bar>latitude b\<bar> \<le> 90"
  shows "haversine exact a b
    = Some (6371000 * arccos (sin (latitude a * pi / 180) * sin (latitude b * pi / 180)
                              + cos (latitude a * pi / 180) * cos (latitude b * pi / 180)
                                * cos ((longitude b - longitude a) * pi / 180)))"
proof -
  define f1 where "f1 = latitude a * pi / 180"
  define f2 where "f2 = latitude b * pi / 180"
  define p where "p = (latitude b - latitude a) * pi / 180 / 2"
  define q where "q = (longitude b - longitude a) * pi / 180 / 2"
  define h where "h = sin p * sin p + cos f1 * cos f2 * sin q * sin q"
  have f1b: "\<bar>f1\<bar> \<le> pi / 2"
  proof -
    have "\<bar>f1\<bar> = \<bar>latitude a\<bar> * pi / 180" by (simp add: f1_def abs_mult)
    also have "\<dots> \<le> 90 * pi / 180" using assms(1) by (simp add: mult_right_mono divide_right_mono)
    finally show ?thesis by simp
  qed
  have f2b: "\<bar>f2\<bar> \<le> pi / 2"
  proof -
    have "\<bar>f2\<bar> = \<bar>latitude b\<bar> * pi / 180" by (simp add: f2_def abs_mult)
    also have "\<dots> \<le> 90 * pi / 180" using assms(2) by (simp add: mult_right_mono divide_right_mono)
    finally show ?thesis by simp
  qed
  have c1: "0 \<le> cos f1" using f1b by (intro cos_ge_zero) (auto simp: abs_le_iff)
  have c2: "0 \<le> cos f2" using f2b by (intro cos_ge_zero) (auto simp: abs_le_iff)
  have cc: "0 \<le> cos f1 * cos f2" using c1 c2 by simp
  have p2: "2 * p = f2 - f1" by (simp add: p_def f1_def f2_def algebra_simps diff_divide_distrib)
  have sp: "2 * (sin p * sin p) = 1 - (cos f1 * cos f2 + sin f1 * sin f2)"
  proof -
    have "cos (2 * p) = 1 - 2 * (sin p)\<^sup>2" by (rule cos_double_sin)
    moreover have "cos (2 * p) = cos f2 * cos f1 + sin f2 * sin f1" unfolding p2 by (rule cos_diff)
    ultimately show ?thesis by (simp add: power2_eq_square mult.commute)
  qed
  have sq: "2 * (sin q * sin q) = 1 - cos (2 * q)"
    using cos_double_sin[of q] by (simp add: power2_eq_square)
  have q2: "2 * q = (longitude b - longitude a) * pi / 180" by (simp add: q_def)
  define C where "C = sin f1 * sin f2 + cos f1 * cos f2 * cos (2 * q)"
  have hC: "1 - 2 * h = C"
  proof -
    have "2 * h = 2 * (sin p * sin p) + cos f1 * cos f2 * (2 * (sin q * sin q))"
      by (simp add: h_def algebra_simps)
    also have "\<dots> = 1 - (cos f1 * cos f2 + sin f1 * sin f2) + cos f1 * cos f2 * (1 - cos (2 * q))"
      by (simp only: sp sq)
    finally show ?thesis by (simp add: C_def algebra_simps)
  qed
  have h0: "0 \<le> h"
  proof -
    have "0 \<le> cos f1 * cos f2 * (sin q * sin q)" using cc by simp
    moreover have "0 \<le> sin p * sin p" by simp
    ultimately show ?thesis by (simp add: h_def mult.assoc)
  qed
  have h1: "h \<le> 1"
  proof -
    have "sin q * sin q \<le> 1"
      using sin_cos_squared_add[of q] by (simp add: power2_eq_square) (smt (verit) zero_le_square)
    then have "cos f1 * cos f2 * (sin q * sin q) \<le> cos f1 * cos f2"
      using cc by (simp add: mult_left_le)
    then have "2 * h \<le> 2 * (sin p * sin p) + 2 * (cos f1 * cos f2)"
      by (simp add: h_def mult.assoc)
    also have "\<dots> = 1 + (cos f1 * cos f2 - sin f1 * sin f2)" by (simp add: sp)
    also have "\<dots> = 1 + cos (f1 + f2)" by (simp add: cos_add)
    also have "\<dots> \<le> 2" using cos_le_one[of "f1 + f2"] by simp
    finally show ?thesis by simp
  qed
  have "haversine exact a b = Some (6371000 * (2 * atan2 (sqrt h) (sqrt (1 - h))))"
    using h0 h1
    by (simp add: haversine_exact_unfold Let_def h_def p_def q_def f1_def f2_def)
  also have "\<dots> = Some (6371000 * arccos C)"
    by (simp only: half_angle[OF h0 h1] hC)
  finally show ?thesis by (simp add: C_def f1_def f2_def q2)
qed

lemma haversine_meridian:
  assumes "longitude a = longitude b" "\<bar>latitude b - latitude a\<bar> \<le> 180"
  shows "haversine exact a b = Some (6371000 * (pi / 180) * \<bar>latitude b - latitude a\<bar>)"
proof -
  define x where "x = (latitude b - latitude a) * pi / 180 / 2"
  have xb: "\<bar>x\<bar> \<le> pi / 2"
  proof -
    have "\<bar>x\<bar> = \<bar>latitude b - latitude a\<bar> * pi / 360"
      by (simp add: x_def abs_mult)
    also have "\<dots> \<le> 180 * pi / 360"
      using assms(2) by (simp add: mult_right_mono divide_right_mono)
    finally show ?thesis by simp
  qed
  have c2: "1 - sin x * sin x = cos x * cos x"
    using sin_cos_squared_add[of x] by (simp add: power2_eq_square algebra_simps)
  have "0 \<le> cos x * cos x" by simp
  then have le1: "\<not> 1 < sin x * sin x" using c2 by linarith
  have h: "haversine exact a b = Some (6371000 * (2 * atan2 (sqrt (sin x * sin x)) (sqrt (1 - sin x * sin x))))"
    using assms(1) le1 by (simp add: haversine_exact_unfold Let_def x_def)
  have cnn: "0 \<le> cos x" using xb by (intro cos_ge_zero) (auto simp: abs_le_iff)
  have s: "sqrt (sin x * sin x) = sin \<bar>x\<bar>"
  proof (cases "0 \<le> x")
    case True
    then have "0 \<le> sin x" using xb by (intro sin_ge_zero) (auto simp: abs_le_iff)
    then show ?thesis using True by simp
  next
    case False
    then have "0 \<le> sin (- x)" using xb by (intro sin_ge_zero) (auto simp: abs_le_iff)
    then show ?thesis using False by simp
  qed
  have c: "sqrt (1 - sin x * sin x) = cos \<bar>x\<bar>"
    using cnn by (simp add: c2)
  have at: "atan2 (sin \<bar>x\<bar>) (cos \<bar>x\<bar>) = \<bar>x\<bar>"
    using xb by (intro atan2_sin_cos) auto
  have "haversine exact a b = Some (6371000 * (2 * \<bar>x\<bar>))"
    unfolding h s c at ..
  also have "\<bar>x\<bar> = \<bar>latitude b - latitude a\<bar> * pi / 360"
    by (simp add: x_def abs_mult)
  finally show ?thesis by simp
qed

subsection \<open>Filter, rounding, order and cut\<close>

lemma candidates_filter_map:
  "candidates fp current r rows =
     map (\<lambda>row. \<lparr>dup_id = row_id row, dup_description = row_description row,
                   distance_m = round (the (haversine fp current
                      \<lparr>latitude = row_latitude row, longitude = row_longitude row\<rparr>)),
                   created_at = row_created_at row\<rparr>)
       (filter (\<lambda>row. case haversine fp current
                   \<lparr>latitude = row_latitude row, longitude = row_longitude row\<rparr> of
                   None \<Rightarrow> False | Some m \<Rightarrow> m \<le> r) rows)"
  by (induction rows) (simp_all split: option.splits)

lemma take_sorted_least:
  assumes "sorted (map f xs)" "y \<in> set xs" "y \<notin> set (take n xs)" "x \<in> set (take n xs)"
  shows "f x \<le> f y"
proof -
  have "y \<in> set (drop n xs)"
    using assms(2,3) by (metis Un_iff append_take_drop_id set_append)
  moreover have "sorted (map f (take n xs) @ map f (drop n xs))"
    using assms(1) by (metis append_take_drop_id map_append)
  ultimately show ?thesis using assms(4) by (auto simp: sorted_append)
qed

lemma haversine_same_spot:
  "haversine exact manila \<lparr>latitude = 14.5995, longitude = 120.9842\<rparr> = Some 0"
  using haversine_meridian[of manila "\<lparr>latitude = 14.5995, longitude = 120.9842\<rparr>"]
  by (simp add: manila_def)

lemma haversine_step_north:
  "haversine exact manila \<lparr>latitude = 14.599502, longitude = 120.9842\<rparr>
     = Some (6371000 * (pi / 180) * (2 / 10 ^ 6))"
  using haversine_meridian[of manila "\<lparr>latitude = 14.599502, longitude = 120.9842\<rparr>"]
  by (simp add: manila_def)

lemma haversine_degree_north:
  "haversine exact manila \<lparr>latitude = 15.5995, longitude = 120.9842\<rparr> = Some (6371000 * (pi / 180))"
  using haversine_meridian[of manila "\<lparr>latitude = 15.5995, longitude = 120.9842\<rparr>"]
  by (simp add: manila_def)

lemma step_rounds_to_zero:
  "round (6371000 * (pi / 180) * (2 / 10 ^ 6) :: real) = 0"
    and "6371000 * (pi / 180) * (2 / 10 ^ 6) \<le> (120 :: real)"
    and "0 < 6371000 * (pi / 180) * (2 / 10 ^ 6 :: real)"
proof -
  define x :: real where "x = 6371000 * (pi / 180) * (2 / 10 ^ 6)"
  have u: "x < 1 / 2" using pi_less_4 by (simp add: x_def)
  have l: "0 < x" by (simp add: x_def)
  have "\<lfloor>x + 1 / 2\<rfloor> = 0" using u l by (intro floor_unique) auto
  then show "round (6371000 * (pi / 180) * (2 / 10 ^ 6) :: real) = 0"
    by (simp add: round_def x_def)
  show "6371000 * (pi / 180) * (2 / 10 ^ 6) \<le> (120 :: real)" using u by (simp add: x_def)
  show "0 < 6371000 * (pi / 180) * (2 / 10 ^ 6 :: real)" using l by (simp add: x_def)
qed

text \<open>
  Claim C4 says that the result is sorted ascending by distance and holds the five
  closest candidates at most. The order and the cut are by the rounded distance. Of six
  reports within the radius, five lie some 22 cm from the query point and the sixth, last
  in the query result, lies on it: all six round to 0 m, the stable sort leaves them in
  query order, and the five returned are the farther ones; the nearest candidate is left
  out.
\<close>

theorem nearest_candidate_left_out:
  "findPotentialDuplicates exact manila 120 (Inr sixNearby)
     = Inr [nearbyDup ''s1'', nearbyDup ''s2'', nearbyDup ''s3'', nearbyDup ''s4'', nearbyDup ''s5'']
   \<and> haversine exact manila \<lparr>latitude = row_latitude sameSpot, longitude = row_longitude sameSpot\<rparr>
       = Some 0
   \<and> haversine exact manila
         \<lparr>latitude = row_latitude (stepNorth ''s1''), longitude = row_longitude (stepNorth ''s1'')\<rparr>
       = Some (6371000 * (pi / 180) * (2 / 10 ^ 6))
   \<and> 0 < 6371000 * (pi / 180) * (2 / 10 ^ 6)"
  using haversine_same_spot haversine_step_north step_rounds_to_zero pi_less_4
  by (simp add: findPotentialDuplicates_def sixNearby_def stepNorth_def sameSpot_def nearbyDup_def)

text \<open>
  Claim C4 as the code has it. \<^verbatim>\<open>findPotentialDuplicates\<close> passes a failure of the query
  on. On the rows of the recency window, whatever the platform's arithmetic: the result
  has as many entries as there are rows whose computed distance is a number and at most
  the radius, up to five; it is ascending in \<^verbatim>\<open>distance_m\<close>; every entry comes from such a
  row, with \<^verbatim>\<open>distance_m\<close> the computed distance rounded to the nearest integer; and a row
  within the radius that is left out is at least as far, in rounded meters, as each of
  the five returned. The distance computed is the haversine formula with radius
  6371000 m: in arithmetic without rounding, for latitudes between -90 and 90 degrees, it
  is never \<^verbatim>\<open>NaN\<close> and equals 6371000 times the central angle between the two points, the
  angle whose cosine is
  \<open>sin \<phi>\<^sub>1 sin \<phi>\<^sub>2 + cos \<phi>\<^sub>1 cos \<phi>\<^sub>2 cos \<Delta>\<lambda>\<close>.
\<close>

theorem findPotentialDuplicates_rounded_order:
  "findPotentialDuplicates fp current r (Inl e) = Inl e
   \<and> (\<exists>ds. findPotentialDuplicates fp current r (Inr rows) = Inr ds
        \<and> length ds = min 5 (length (filter (\<lambda>row. case haversine fp current
              \<lparr>latitude = row_latitude row, longitude = row_longitude row\<rparr> of
              None \<Rightarrow> False | Some m \<Rightarrow> m \<le> r) rows))
        \<and> sorted (map distance_m ds)
        \<and> (\<forall>d\<in>set ds. \<exists>row\<in>set rows. \<exists>m.
              haversine fp current \<lparr>latitude = row_latitude row, longitude = row_longitude row\<rparr>
                = Some m
              \<and> m \<le> r
              \<and> d = \<lparr>dup_id = row_id row, dup_description = row_description row,
                     distance_m = round m, created_at = row_created_at row\<rparr>)
        \<and> (\<forall>row\<in>set rows. \<forall>m.
              haversine fp current \<lparr>latitude = row_latitude row, longitude = row_longitude row\<rparr>
                = Some m \<longrightarrow>
              m \<le> r \<longrightarrow>
              \<lparr>dup_id = row_id row, dup_description = row_description row,
               distance_m = round m, created_at = row_created_at row\<rparr> \<notin> set ds \<longrightarrow>
              length ds = 5 \<and> (\<forall>d\<in>set ds. distance_m d \<le> round m)))
   \<and> (\<bar>latitude a\<bar> \<le> 90 \<longrightarrow> \<bar>latitude b\<bar> \<le> 90 \<longrightarrow>
        haversine exact a b
          = Some (6371000 * arccos (sin (latitude a * pi / 180) * sin (latitude b * pi / 180)
                                    + cos (latitude a * pi / 180) * cos (latitude b * pi / 180)
                                      * cos ((longitude b - longitude a) * pi / 180))))"
proof -
  define hv where "hv = (\<lambda>row::Row. haversine fp current
              \<lparr>latitude = row_latitude row, longitude = row_longitude row\<rparr>)"
  define near where "near = (\<lambda>row. case hv row of None \<Rightarrow> False | Some m \<Rightarrow> m \<le> r)"
  define mk where "mk = (\<lambda>(row::Row) (m::real). \<lparr>dup_id = row_id row, dup_description = row_description row,
                     distance_m = round m, created_at = row_created_at row\<rparr>)"
  define L where "L = sort_key distance_m (candidates fp current r rows)"
  define ds where "ds = take 5 L"
  have cand: "candidates fp current r rows = map (\<lambda>row. mk row (the (hv row))) (filter near rows)"
    unfolding mk_def near_def hv_def by (rule candidates_filter_map)
  have setL: "set L = (\<lambda>row. mk row (the (hv row))) ` {row \<in> set rows. near row}"
    by (simp add: L_def cand)
  have lenL: "length L = length (filter near rows)"
    by (simp add: L_def cand)
  have sortedL: "sorted (map distance_m L)" by (simp add: L_def)
  have res: "findPotentialDuplicates fp current r (Inr rows) = Inr ds"
    by (simp add: findPotentialDuplicates_def ds_def L_def)
  have len: "length ds = min 5 (length (filter near rows))"
    by (simp add: ds_def lenL min.commute)
  have srt: "sorted (map distance_m ds)"
    unfolding ds_def take_map[symmetric] using sortedL by (rule sorted_wrt_take)
  have orig: "\<forall>d\<in>set ds. \<exists>row\<in>set rows. \<exists>m. hv row = Some m \<and> m \<le> r \<and> d = mk row m"
  proof
    fix d assume "d \<in> set ds"
    then have "d \<in> set L" unfolding ds_def by (rule in_set_takeD)
    then obtain row where row: "row \<in> set rows" "near row" "d = mk row (the (hv row))"
      using setL by auto
    obtain m where m: "hv row = Some m" "m \<le> r"
      using row(2) by (auto simp: near_def split: option.splits)
    show "\<exists>row\<in>set rows. \<exists>m. hv row = Some m \<and> m \<le> r \<and> d = mk row m"
      using row(1,3) m by auto
  qed
  have closest: "\<forall>row\<in>set rows. \<forall>m. hv row = Some m \<longrightarrow> m \<le> r \<longrightarrow> mk row m \<notin> set ds \<longrightarrow>
      length ds = 5 \<and> (\<forall>d\<in>set ds. distance_m d \<le> round m)"
  proof (intro ballI allI impI)
    fix row m assume row: "row \<in> set rows" "hv row = Some m" "m \<le> r" "mk row m \<notin> set ds"
    have "near row" using row(2,3) by (simp add: near_def)
    then have inL: "mk row m \<in> set L" using setL row(1,2) by force
    have "\<not> length L \<le> 5"
    proof
      assume "length L \<le> 5"
      then have "ds = L" by (simp add: ds_def)
      then show False using inL row(4) by simp
    qed
    then have l5: "length ds = 5" by (simp add: ds_def)
    have "\<forall>d\<in>set ds. distance_m d \<le> distance_m (mk row m)"
      using take_sorted_least[OF sortedL inL] row(4) unfolding ds_def by blast
    then show "length ds = 5 \<and> (\<forall>d\<in>set ds. distance_m d \<le> round m)"
      using l5 by (simp add: mk_def)
  qed
  have first: "findPotentialDuplicates fp current r (Inl e) = Inl e"
    by (simp add: findPotentialDuplicates_def)
  have "\<exists>ds. findPotentialDuplicates fp current r (Inr rows) = Inr ds
        \<and> length ds = min 5 (length (filter near rows))
        \<and> sorted (map distance_m ds)
        \<and> (\<forall>d\<in>set ds. \<exists>row\<in>set rows. \<exists>m. hv row = Some m \<and> m \<le> r \<and> d = mk row m)
        \<and> (\<forall>row\<in>set rows. \<forall>m. hv row = Some m \<longrightarrow> m \<le> r \<longrightarrow> mk row m \<notin> set ds \<longrightarrow>
              length ds = 5 \<and> (\<forall>d\<in>set ds. distance_m d \<le> round m))"
    using res len srt orig closest by blast
  then show ?thesis
    using first haversine_great_circle[of a b] unfolding near_def mk_def hv_def by blast
qed

text \<open>
  A report at the query point is returned with distance 0; one a degree of latitude to
  the north, 6371000 * pi / 180 m away, is not within 120 m.
\<close>

theorem findPotentialDuplicates_rounded_order_witness:
  "findPotentialDuplicates exact manila 120 (Inr [oneDegreeNorth, sameSpot])
     = Inr [\<lparr>dup_id = ''r1'', dup_description = ''Leak'', distance_m = 0,
              created_at = ''2025-09-23T08:00:00Z''\<rparr>]
   \<and> haversine exact manila manila = Some 0"
proof -
  have z: "haversine exact manila manila = Some 0"
    using findPotentialDuplicates_rounded_order[of exact manila 120 NonError
        "[oneDegreeNorth, sameSpot]" manila manila]
    by (simp add: manila_def flip: power2_eq_square)
  have "6371000 * (2 / 180) \<le> 6371000 * (pi / 180)"
    using pi_ge_two by simp
  then have far: "\<not> 6371000 * (pi / 180) \<le> (120::real)" by simp
  have "findPotentialDuplicates exact manila 120 (Inr [oneDegreeNorth, sameSpot])
     = Inr [\<lparr>dup_id = ''r1'', dup_description = ''Leak'', distance_m = 0,
              created_at = ''2025-09-23T08:00:00Z''\<rparr>]"
    using far z haversine_degree_north
    by (simp add: findPotentialDuplicates_def oneDegreeNorth_def sameSpot_def manila_def)
  then show ?thesis using z by simp
qed

section \<open>The handler of POST /reports\<close>

lemma postReports_detector_failure:
  "postReports fp req (Inl e) create = postReports fp req (Inr []) create"
  by (simp add: postReports_def findPotentialDuplicates_def Let_def split: sum.splits)

text \<open>
  Claim C5: a failure of the duplicate detector never changes the outcome of a
  submission. For every request the response is the one the handler gives when the
  detector finds nothing; and for a request that passes the validations and whose report
  is created, it is status 201 with the new report and an empty list of duplicates.
\<close>

theorem duplicate_detection_non_blocking:
  "postReports fp req (Inl e) create = postReports fp req (Inr []) create
   \<and> (truthy (body_category (body req)) \<longrightarrow> truthy (body_description (body req)) \<longrightarrow>
      validateReportCategory (the (body_category (body req))) \<longrightarrow>
      validateDescription (the (body_description (body req))) \<longrightarrow>
      validateLocation (body_location (body req)) = Inr loc \<longrightarrow>
      create \<lparr>input_category = the (body_category (body req)),
              input_description = the (body_description (body req)),
              input_location = loc,
              input_address = body_address (body req),
              input_photo_url = body_photo_url (body req),
              input_photo_public_id = body_photo_public_id (body req),
              reporter_ip = the (orElse (ip req) (orElse (remoteAddress req) (Some ''unknown'')))\<rparr>
        = Inr report \<longrightarrow>
      postReports fp req (Inl e) create
        = (201, Created report [] ''Report submitted successfully''))"
proof -
  have "postReports fp req (Inl e) create
        = (201, Created report [] ''Report submitted successfully'')"
    if "truthy (body_category (body req))" "truthy (body_description (body req))"
      "validateReportCategory (the (body_category (body req)))"
      "validateDescription (the (body_description (body req)))"
      "validateLocation (body_location (body req)) = Inr loc"
      "create \<lparr>input_category = the (body_category (body req)),
              input_description = the (body_description (body req)),
              input_location = loc,
              input_address = body_address (body req),
              input_photo_url = body_photo_url (body req),
              input_photo_public_id = body_photo_public_id (body req),
              reporter_ip = the (orElse (ip req) (orElse (remoteAddress req) (Some ''unknown'')))\<rparr>
        = Inr report"
  proof -
    have "body_location (body req) \<noteq> None"
      using that(5) by (auto simp: validateLocation_def split: option.splits)
    then show ?thesis
      using that by (simp add: postReports_def findPotentialDuplicates_def Let_def)
  qed
  then show ?thesis using postReports_detector_failure by blast
qed

text \<open>A valid report of a water leak while the detector's query fails.\<close>

theorem duplicate_detection_non_blocking_witness:
  "postReports exact waterLeak (Inl (Error ''index unavailable'')) (\<lambda>input. Inr (input_description input))
     = (201, Created ''Leak'' [] ''Report submitted successfully'')"
  using duplicate_detection_non_blocking[of exact waterLeak "Error ''index unavailable''"
      "\<lambda>input. Inr (input_description input)" "\<lparr>latitude = 9.78, longitude = 125.49\<rparr>" "''Leak''",
      THEN conjunct2]
  by (simp add: waterLeak_def truthy_def validateReportCategory_def validateDescription_def
        validateLocation_def validateCoordinates_def isWithinPhilippines_def)

section \<open>Mutual exclusion of cycles\<close>

lemma returned_idle: "returned s = (co, s1) \<Longrightarrow> co = None \<and> \<not> isProcessing s1 \<and> db s1 = db s"
  by (auto simp: returned_def)

lemma failed_idle: "failed e s = (co, s1) \<Longrightarrow> co = None \<and> \<not> isProcessing s1 \<and> db s1 = db s"
  by (auto simp: failed_def returned_def emit_def)

lemma completed_idle: "completed acc s = (co, s1) \<Longrightarrow> co = None \<and> \<not> isProcessing s1 \<and> db s1 = db s"
  by (cases acc) (auto simp: completed_def returned_def emit_def split: if_splits)

lemma itemFailed_inFlight:
  assumes "isProcessing s" "m \<le> length (attempts s)"
    and "distinct (drop m (attempts s) @ map itemId rest)"
    and "itemFailed e item rest acc s = (co, s1)"
  shows "\<exists>c. co = Some c \<and> inFlight m c s1 \<and> db s1 = db s"
  using assms by (cases acc) (auto simp: itemFailed_def inFlight_def emit_def Let_def)

lemma nextItem_inFlight:
  assumes "isProcessing s" "m \<le> length (attempts s)"
    and "distinct (drop m (attempts s) @ map itemId items)"
    and "nextItem items acc s = (co, s1)"
  shows "\<exists>c. co = Some c \<and> inFlight m c s1 \<and> db s1 = db s"
proof (cases items)
  case Nil
  then show ?thesis using assms by (auto simp: inFlight_def)
next
  case (Cons item rest)
  have d: "distinct (drop m (attempts s) @ map itemId rest)"
    using assms(3) Cons by simp
  show ?thesis
  proof (cases "retryCount item \<ge> MAX_RETRIES")
    case True
    then show ?thesis using assms(1,2,4) d Cons by (auto simp: inFlight_def)
  next
    case False
    note notmax = this
    show ?thesis
    proof (cases "itemType item = CREATE_REPORT")
      case True
      then show ?thesis using assms notmax Cons by (auto simp: inFlight_def)
    next
      case False
      then have "itemFailed (Error (''Unsupported queue item type: '' @ typeName (itemType item)))
             item rest acc s = (co, s1)"
        using assms(4) notmax Cons by simp
      then show ?thesis by (rule itemFailed_inFlight[OF assms(1,2) d])
    qed
  qed
qed

lemma updateQueueItem_distinct:
  assumes "distinct (map itemId (offlineQueue d))" "offlineQueueDB_updateQueueItem k rc err d = Inr d1"
  shows "distinct (map itemId (offlineQueue d1))"
  using assms
  by (auto simp: offlineQueueDB_updateQueueItem_def withDB_def distinct_os_put
      split: option.splits)

lemma removeFromQueue_distinct:
  assumes "distinct (map itemId (offlineQueue d))" "offlineQueueDB_removeFromQueue k d = Inr d1"
  shows "distinct (map itemId (offlineQueue d1))"
  using assms
  by (auto simp: offlineQueueDB_removeFromQueue_def withDB_def distinct_os_delete
      split: option.splits)

lemma settle_inv:
  assumes inv: "inFlight m c s" and dist: "distinct (map itemId (offlineQueue (db s)))"
    and st: "settle api c s = (co, s1)"
  shows "distinct (map itemId (offlineQueue (db s1)))
       \<and> (case co of None \<Rightarrow> \<not> isProcessing s1 | Some c1 \<Rightarrow> inFlight m c1 s1)"
proof -
  have ip: "isProcessing s" and le: "m \<le> length (attempts s)"
    and dr: "distinct (drop m (attempts s) @ map itemId (remaining c))"
    using inv by (auto simp: inFlight_def)
  show ?thesis
  proof (cases c)
    case AwaitQueueItems
    have m: "m = length (attempts s)" using inv AwaitQueueItems by (simp add: inFlight_def)
    show ?thesis
    proof (cases "offlineQueueDB_getQueueItems (db s)")
      case (Inl e)
      then show ?thesis using st AwaitQueueItems dist failed_idle[of e s co s1] by simp
    next
      case (Inr q)
      have dq: "distinct (map itemId q)"
        using Inr dist
        by (auto simp: offlineQueueDB_getQueueItems_def withDB_def distinct_ids_sort_key
            split: option.splits)
      show ?thesis
      proof (cases "q = []")
        case True
        then show ?thesis
          using st AwaitQueueItems Inr dist returned_idle[of "s\<lparr>isProcessing := False\<rparr>" co s1]
          by simp
      next
        case False
        then have n: "nextItem q (0, 0, []) s = (co, s1)"
          using st AwaitQueueItems Inr by simp
        have "distinct (drop m (attempts s) @ map itemId q)" using dq m by simp
        from nextItem_inFlight[OF ip le this n] show ?thesis using dist by auto
      qed
    qed
  next
    case (AwaitDrop item rest acc)
    have dr': "distinct (drop m (attempts s) @ map itemId rest)" using dr AwaitDrop by simp
    show ?thesis
    proof (cases "offlineQueueDB_removeFromQueue (itemId item) (db s)")
      case (Inl e)
      then have "itemFailed e item rest acc s = (co, s1)" using st AwaitDrop by simp
      from itemFailed_inFlight[OF ip le dr' this] show ?thesis using dist by auto
    next
      case (Inr d)
      then have f: "itemFailed (Error ''Max retries exceeded'') item rest acc (s\<lparr>db := d\<rparr>) = (co, s1)"
        using st AwaitDrop by simp
      have "distinct (map itemId (offlineQueue d))"
        using removeFromQueue_distinct[OF dist Inr] .
      moreover have "\<exists>c. co = Some c \<and> inFlight m c s1 \<and> db s1 = db (s\<lparr>db := d\<rparr>)"
        by (rule itemFailed_inFlight[OF _ _ _ f]) (use ip le dr' in simp_all)
      ultimately show ?thesis by auto
    qed
  next
    case (AwaitSubmit n item rest acc)
    have dr': "distinct (drop m (attempts s) @ map itemId rest)" using dr AwaitSubmit by simp
    show ?thesis
    proof (cases "api n (submissionData (itemData item))")
      case (Inl e)
      then have "itemFailed e item rest acc s = (co, s1)" using st AwaitSubmit by simp
      from itemFailed_inFlight[OF ip le dr' this] show ?thesis using dist by auto
    next
      case (Inr r)
      then show ?thesis using st AwaitSubmit ip le dr' dist by (auto simp: inFlight_def)
    qed
  next
    case (AwaitRemove item rest acc)
    have dr': "distinct (drop m (attempts s) @ map itemId rest)" using dr AwaitRemove by simp
    obtain sc fc errs where acc: "acc = (sc, fc, errs)" by (cases acc) auto
    show ?thesis
    proof (cases "offlineQueueDB_removeFromQueue (itemId item) (db s)")
      case (Inl e)
      then have "itemFailed e item rest acc s = (co, s1)" using st AwaitRemove by simp
      from itemFailed_inFlight[OF ip le dr' this] show ?thesis using dist by auto
    next
      case (Inr d)
      then have n: "nextItem rest (sc + 1, fc, errs) (emit (ItemSynced (itemId item)) (s\<lparr>db := d\<rparr>)) = (co, s1)"
        using st AwaitRemove acc by simp
      have "distinct (map itemId (offlineQueue d))"
        using removeFromQueue_distinct[OF dist Inr] .
      moreover have "\<exists>c. co = Some c \<and> inFlight m c s1
          \<and> db s1 = db (emit (ItemSynced (itemId item)) (s\<lparr>db := d\<rparr>))"
        by (rule nextItem_inFlight[OF _ _ _ n]) (use ip le dr' in \<open>simp_all add: emit_def\<close>)
      ultimately show ?thesis by (auto simp: emit_def)
    qed
  next
    case (AwaitUpdate item msg rest acc)
    have dr': "distinct (drop m (attempts s) @ map itemId rest)" using dr AwaitUpdate by simp
    show ?thesis
    proof (cases "offlineQueueDB_updateQueueItem (itemId item) (retryCount item + 1) (Some msg) (db s)")
      case (Inl e)
      then show ?thesis using st AwaitUpdate dist failed_idle[of e s co s1] by simp
    next
      case (Inr d)
      then have n: "nextItem rest acc (s\<lparr>db := d\<rparr>) = (co, s1)"
        using st AwaitUpdate by simp
      have "distinct (map itemId (offlineQueue d))"
        using updateQueueItem_distinct[OF dist Inr] .
      moreover have "\<exists>c. co = Some c \<and> inFlight m c s1 \<and> db s1 = db (s\<lparr>db := d\<rparr>)"
        by (rule nextItem_inFlight[OF _ _ _ n]) (use ip le dr' in simp_all)
      ultimately show ?thesis by auto
    qed
  next
    case (AwaitSyncItems acc)
    show ?thesis
    proof (cases "offlineQueueDB_getQueueItems (db s)")
      case (Inl e)
      then show ?thesis using st AwaitSyncItems dist completed_idle[of acc s co s1] by simp
    next
      case (Inr q)
      then show ?thesis using st AwaitSyncItems ip le dr dist by (auto simp: inFlight_def)
    qed
  next
    case (AwaitSyncStatus sst acc)
    show ?thesis
    proof (cases "syncStatusDB_updateSyncStatus sst (db s)")
      case (Inl e)
      then show ?thesis using st AwaitSyncStatus dist completed_idle[of acc s co s1] by simp
    next
      case (Inr d)
      then have "offlineQueue d = offlineQueue (db s)"
        by (auto simp: syncStatusDB_updateSyncStatus_def withDB_def split: option.splits)
      then show ?thesis
        using st AwaitSyncStatus Inr dist completed_idle[of acc "s\<lparr>db := d\<rparr>" co s1] by simp
    qed
  qed
qed

lemma step_inv:
  assumes "cycleInv sys"
  shows "cycleInv (step api sys a)"
proof -
  obtain s cs where sys: "sys = (s, cs)" by (cases sys) auto
  have dist: "distinct (map itemId (offlineQueue (db s)))"
    using assms sys by (simp add: cycleInv_def)
  consider (idle) "cs = []" "\<not> isProcessing s"
    | (busy) m c where "cs = [(m, c)]" "inFlight m c s"
    using assms sys
    by (cases cs) (auto simp: cycleInv_def)
  then show ?thesis
  proof cases
    case idle
    show ?thesis
    proof (cases a)
      case CallProcessQueue
      then show ?thesis
        using idle sys dist
        by (auto simp: cycleInv_def callProcessQueue_def emit_def inFlight_def)
    next
      case (Settle i)
      then show ?thesis using idle sys assms by simp
    next
      case (SetOnLine b)
      then show ?thesis using idle sys dist by (simp add: cycleInv_def)
    next
      case (SetClock t)
      then show ?thesis using idle sys dist by (simp add: cycleInv_def)
    next
      case (SetUnavailable f)
      then show ?thesis using idle sys dist by (simp add: cycleInv_def)
    qed
  next
    case busy
    have ip: "isProcessing s" using busy(2) by (simp add: inFlight_def)
    show ?thesis
    proof (cases a)
      case CallProcessQueue
      then show ?thesis
        using busy sys ip assms by (simp add: callProcessQueue_def)
    next
      case (Settle i)
      show ?thesis
      proof (cases "i = 0")
        case False
        then show ?thesis using Settle busy sys assms by simp
      next
        case True
        obtain co s1 where st: "settle api c s = (co, s1)" by fastforce
        note r = settle_inv[OF busy(2) dist st]
        show ?thesis
        proof (cases co)
          case None
          then show ?thesis using r st Settle True busy(1) sys by (simp add: cycleInv_def)
        next
          case (Some c1)
          then show ?thesis using r st Settle True busy(1) sys by (simp add: cycleInv_def)
        qed
      qed
    next
      case (SetOnLine b)
      then show ?thesis using busy sys dist by (simp add: cycleInv_def inFlight_def)
    next
      case (SetClock t)
      then show ?thesis using busy sys dist by (simp add: cycleInv_def inFlight_def)
    next
      case (SetUnavailable f)
      then show ?thesis using busy sys dist by (simp add: cycleInv_def inFlight_def)
    qed
  qed
qed

lemma run_inv: "cycleInv sys \<Longrightarrow> cycleInv (run api sys actions)"
  unfolding run_def
  by (induction actions arbitrary: sys) (simp_all add: step_inv)

lemma processQueue_reentrant: "isProcessing s \<Longrightarrow> processQueue api s = (Inr (), s)"
  by (simp add: processQueue_def)

text \<open>
  Claim C1: at most one cycle is active at a time. Start from a manager that is not
  processing, on a store with one record per id, and let any sequence of actions happen:
  calls of \<^verbatim>\<open>processQueue\<close> from any trigger, settlements of awaited promises in any
  order, changes of connectivity, clock and reachability of the database. Then at most
  one call of \<^verbatim>\<open>processQueue\<close> is suspended, and \<^verbatim>\<open>isProcessing\<close> is set exactly while
  one is; a call of \<^verbatim>\<open>processQueue\<close> made while one is suspended returns at once and
  changes nothing: no submission, no event, no second cycle, and \<^verbatim>\<open>forceSync\<close> changes
  nothing either; and the submissions made since the suspended cycle started are for
  pairwise different items, so no item is submitted twice in a cycle. In the sync
  manager, \<^verbatim>\<open>performSync\<close> called while its operation is in flight waits for that
  operation and starts nothing.
\<close>

theorem processQueue_mutual_exclusion:
  assumes "\<not> isProcessing s0" "distinct (map itemId (offlineQueue (db s0)))"
    and "run api (s0, []) actions = (s, cs)"
  shows "length cs \<le> 1
     \<and> (isProcessing s \<longleftrightarrow> cs \<noteq> [])
     \<and> (cs \<noteq> [] \<longrightarrow> step api (s, cs) CallProcessQueue = (s, cs)
                     \<and> processQueue api s = (Inr (), s)
                     \<and> snd (forceSync api s) = s)
     \<and> (\<forall>(m, c) \<in> set cs. m \<le> length (attempts s) \<and> distinct (drop m (attempts s)))
     \<and> (currentSyncPromise sm \<longrightarrow> performSync sm = (AwaitCurrent, sm))"
proof -
  have "cycleInv (s0, [])" using assms(1,2) by (simp add: cycleInv_def)
  then have inv: "cycleInv (s, cs)" using run_inv[of "(s0, [])" api actions] assms(3) by simp
  consider (idle) "cs = []" "\<not> isProcessing s"
    | (busy) m c where "cs = [(m, c)]" "inFlight m c s"
    using inv by (cases cs) (auto simp: cycleInv_def)
  then show ?thesis
  proof cases
    case idle
    then show ?thesis by (simp add: performSync_def)
  next
    case busy
    then have ip: "isProcessing s" and le: "m \<le> length (attempts s)"
      and d: "distinct (drop m (attempts s))"
      by (auto simp: inFlight_def)
    have "step api (s, cs) CallProcessQueue = (s, cs)"
      using ip by (simp add: callProcessQueue_def)
    moreover have "snd (forceSync api s) = s"
      using ip by (simp add: forceSync_def)
    ultimately show ?thesis
      using busy(1) ip le d processQueue_reentrant[OF ip, of api]
      by (simp add: performSync_def)
  qed
qed

text \<open>
  Five triggers, a loss and a return of connectivity while one cycle works through two
  failing items: one cycle is in flight and each item has been submitted once.
\<close>

theorem processQueue_mutual_exclusion_witness:
  "attempts (fst (run alwaysFails (twoQueued, []) overlapping)) = [''queue_1_a'', ''queue_2_b'']
   \<and> map fst (snd (run alwaysFails (twoQueued, []) overlapping)) = [0]
   \<and> isProcessing (fst (run alwaysFails (twoQueued, []) overlapping))"
proof -
  have r: "run alwaysFails (twoQueued, []) overlapping
      = (fst (run alwaysFails (twoQueued, []) overlapping),
         snd (run alwaysFails (twoQueued, []) overlapping))" by simp
  have a: "\<not> isProcessing twoQueued" by code_simp
  have b: "distinct (map itemId (offlineQueue (db twoQueued)))" by code_simp
  have c: "attempts (fst (run alwaysFails (twoQueued, []) overlapping)) = [''queue_1_a'', ''queue_2_b'']"
    by code_simp
  have d: "map fst (snd (run alwaysFails (twoQueued, []) overlapping)) = [0]"
    by code_simp
  from processQueue_mutual_exclusion[OF a b r] d c show ?thesis
    by (cases "snd (run alwaysFails (twoQueued, []) overlapping)") auto
qed

section \<open>The resumable computation and the function agree\<close>

lemma settles_None [simp]: "settles api n (None, s) = (None, s)"
  by (cases n) simp_all

lemma settles_add: "settles api (a + b) k = settles api b (settles api a k)"
proof (induction a arbitrary: k)
  case 0
  show ?case by simp
next
  case (Suc a)
  obtain co s where k: "k = (co, s)" by (cases k) auto
  show ?case using Suc by (cases co) (simp_all add: k)
qed

lemma settles_step: "settles api (Suc n) (Some c, s) = settles api n (settle api c s)"
  by simp

lemma failed_None: "fst (failed e s) = None"
  by (simp add: failed_def returned_def)

lemma loop_failure:
  assumes IH: "\<And>acc s. \<exists>n. settles api n (nextItem rest acc s) = loopExit (processItems api rest acc s)"
  shows "\<exists>n. settles api n (itemFailed e item rest (sc, fc, errs) s1)
     = loopExit
         (let errorMessage = messageOr ''Unknown error'' e;
              s2 = emit (ItemFailed (itemId item) errorMessage) s1
          in case offlineQueueDB_updateQueueItem (itemId item) (retryCount item + 1)
                    (Some errorMessage) (db s2) of
               Inl e2 \<Rightarrow> (Inl e2, s2)
             | Inr d \<Rightarrow>
                 processItems api rest
                   (sc, fc + 1, errs @ [itemId item @ '': '' @ errorMessage])
                   (s2\<lparr>db := d\<rparr>))"
proof -
  define msg where "msg = messageOr ''Unknown error'' e"
  define s2 where "s2 = emit (ItemFailed (itemId item) msg) s1"
  define acc' where "acc' = (sc, fc + 1, errs @ [itemId item @ '': '' @ msg])"
  have f: "itemFailed e item rest (sc, fc, errs) s1 = (Some (AwaitUpdate item msg rest acc'), s2)"
    by (simp add: itemFailed_def msg_def s2_def acc'_def Let_def)
  show ?thesis
  proof (cases "offlineQueueDB_updateQueueItem (itemId item) (retryCount item + 1) (Some msg) (db s2)")
    case (Inl e2)
    have "settles api (Suc 0) (itemFailed e item rest (sc, fc, errs) s1) = failed e2 s2"
      using Inl by (simp add: f)
    then show ?thesis
      using Inl by (intro exI[of _ "Suc 0"]) (simp add: loopExit_def msg_def[symmetric] s2_def[symmetric] Let_def)
  next
    case (Inr d)
    obtain n where n: "settles api n (nextItem rest acc' (s2\<lparr>db := d\<rparr>))
        = loopExit (processItems api rest acc' (s2\<lparr>db := d\<rparr>))"
      using IH by blast
    have "settles api (Suc n) (itemFailed e item rest (sc, fc, errs) s1)
        = loopExit (processItems api rest acc' (s2\<lparr>db := d\<rparr>))"
      using Inr n by (simp add: f)
    then show ?thesis
      using Inr
      by (intro exI[of _ "Suc n"])
         (simp add: msg_def[symmetric] s2_def[symmetric] acc'_def Let_def)
  qed
qed

lemma loop_refines:
  "\<exists>n. settles api n (nextItem items acc s) = loopExit (processItems api items acc s)"
proof (induction items arbitrary: acc s)
  case Nil
  show ?case by (intro exI[of _ 0]) (simp add: loopExit_def)
next
  case (Cons item rest)
  obtain sc fc errs where acc: "acc = (sc, fc, errs)" by (cases acc) auto
  note fl = loop_failure[of api rest, OF Cons.IH]
  show ?case
  proof (cases "retryCount item \<ge> MAX_RETRIES")
    case True
    have start: "nextItem (item # rest) acc s = (Some (AwaitDrop item rest acc), s)"
      using True by simp
    show ?thesis
    proof (cases "offlineQueueDB_removeFromQueue (itemId item) (db s)")
      case (Inl e)
      obtain n where n: "settles api n (itemFailed e item rest (sc, fc, errs) s) =
          loopExit (processItems api (item # rest) acc s)"
        using fl[of e item sc fc errs s] True Inl
        by (auto simp: acc processQueueItem_def Let_def)
      have "settles api (Suc n) (nextItem (item # rest) acc s)
          = loopExit (processItems api (item # rest) acc s)"
        unfolding start settles_step using Inl n by (simp add: acc)
      then show ?thesis by blast
    next
      case (Inr d)
      obtain n where n: "settles api n
            (itemFailed (Error ''Max retries exceeded'') item rest (sc, fc, errs) (s\<lparr>db := d\<rparr>)) =
          loopExit (processItems api (item # rest) acc s)"
        using fl[of "Error ''Max retries exceeded''" item sc fc errs "s\<lparr>db := d\<rparr>"] True Inr
        by (auto simp: acc processQueueItem_def Let_def)
      have "settles api (Suc n) (nextItem (item # rest) acc s)
          = loopExit (processItems api (item # rest) acc s)"
        unfolding start settles_step using Inr n by (simp add: acc)
      then show ?thesis by blast
    qed
  next
    case False
    note notmax = this
    show ?thesis
    proof (cases "itemType item = CREATE_REPORT")
      case False
      obtain n where n: "settles api n
            (itemFailed (Error (''Unsupported queue item type: '' @ typeName (itemType item)))
               item rest (sc, fc, errs) s) =
          loopExit (processItems api (item # rest) acc s)"
        using fl[of "Error (''Unsupported queue item type: '' @ typeName (itemType item))"
                 item sc fc errs s] notmax False
        by (auto simp: acc processQueueItem_def Let_def)
      have "nextItem (item # rest) acc s
          = itemFailed (Error (''Unsupported queue item type: '' @ typeName (itemType item)))
               item rest (sc, fc, errs) s"
        using notmax False by (simp add: acc)
      then show ?thesis using n by auto
    next
      case True
      define s1 where "s1 = s\<lparr>attempts := attempts s @ [itemId item]\<rparr>"
      have start: "nextItem (item # rest) acc s
          = (Some (AwaitSubmit (length (attempts s)) item rest acc), s1)"
        using notmax True by (simp add: s1_def)
      show ?thesis
      proof (cases "api (length (attempts s)) (submissionData (itemData item))")
        case (Inl e)
        obtain n where n: "settles api n (itemFailed e item rest (sc, fc, errs) s1) =
            loopExit (processItems api (item # rest) acc s)"
          using fl[of e item sc fc errs s1] notmax True Inl
          by (auto simp: acc processQueueItem_def Let_def s1_def)
        have "settles api (Suc n) (nextItem (item # rest) acc s)
            = loopExit (processItems api (item # rest) acc s)"
          unfolding start settles_step using Inl n by (simp add: acc)
        then show ?thesis by blast
      next
        case (Inr r)
        have two: "settles api (Suc (Suc k)) (nextItem (item # rest) acc s)
            = settles api k (settle api (AwaitRemove item rest acc) s1)" for k
          unfolding start using Inr by simp
        show ?thesis
        proof (cases "offlineQueueDB_removeFromQueue (itemId item) (db s1)")
          case (Inl e)
          obtain n where n: "settles api n (itemFailed e item rest (sc, fc, errs) s1) =
              loopExit (processItems api (item # rest) acc s)"
            using fl[of e item sc fc errs s1] notmax True Inr Inl
            by (auto simp: acc processQueueItem_def Let_def s1_def)
          have "settles api (Suc (Suc n)) (nextItem (item # rest) acc s)
              = loopExit (processItems api (item # rest) acc s)"
            unfolding two using Inl n by (simp add: acc)
          then show ?thesis by blast
        next
          case (Inr d)
          obtain n where n: "settles api n
                (nextItem rest (sc + 1, fc, errs) (emit (ItemSynced (itemId item)) (s1\<lparr>db := d\<rparr>)))
              = loopExit (processItems api rest (sc + 1, fc, errs)
                            (emit (ItemSynced (itemId item)) (s1\<lparr>db := d\<rparr>)))"
            using Cons.IH by blast
          have "processItems api (item # rest) acc s
              = processItems api rest (sc + 1, fc, errs)
                  (emit (ItemSynced (itemId item)) (s1\<lparr>db := d\<rparr>))"
            using notmax True \<open>api (length (attempts s)) (submissionData (itemData item)) = Inr r\<close> Inr
            by (simp add: acc processQueueItem_def Let_def s1_def)
          moreover have "settles api (Suc (Suc n)) (nextItem (item # rest) acc s)
              = settles api n
                  (nextItem rest (sc + 1, fc, errs) (emit (ItemSynced (itemId item)) (s1\<lparr>db := d\<rparr>)))"
            unfolding two using Inr by (simp add: acc)
          ultimately show ?thesis using n by metis
        qed
      qed
    qed
  qed
qed

lemma after_loop:
  "\<exists>n. settles api n (Some (AwaitSyncItems acc), s) = completed acc (updateSyncStatus s)"
proof (cases "offlineQueueDB_getQueueItems (db s)")
  case (Inl e)
  then have "settles api (Suc 0) (Some (AwaitSyncItems acc), s) = completed acc (updateSyncStatus s)"
    by (simp add: updateSyncStatus_def)
  then show ?thesis by blast
next
  case (Inr q)
  have "settles api (Suc (Suc 0)) (Some (AwaitSyncItems acc), s) = completed acc (updateSyncStatus s)"
    using Inr by (simp add: updateSyncStatus_def split: sum.splits)
  then show ?thesis by blast
qed

lemma cycle_refines:
  "\<exists>n. settles api n (callProcessQueue s) = (None, snd (processQueue api s))"
proof (cases "isProcessing s \<or> \<not> isOnline s")
  case True
  then have "settles api 0 (callProcessQueue s) = (None, snd (processQueue api s))"
    by (simp add: callProcessQueue_def processQueue_def)
  then show ?thesis by blast
next
  case False
  define s0 where "s0 = emit SyncStarted (s\<lparr>isProcessing := True\<rparr>)"
  have start: "callProcessQueue s = (Some AwaitQueueItems, s0)"
    using False by (simp add: callProcessQueue_def s0_def)
  have pq: "processQueue api s =
      (case processQueue_try api s0 of
         (Inr u, s1) \<Rightarrow> (Inr (), s1\<lparr>isProcessing := False\<rparr>)
       | (Inl error, s1) \<Rightarrow>
           (Inr (), (emit (SyncFailedError (messageOr ''Processing failed'' error)) s1)
                      \<lparr>isProcessing := False\<rparr>))"
    using False by (simp add: processQueue_def s0_def)
  show ?thesis
  proof (cases "offlineQueueDB_getQueueItems (db s0)")
    case (Inl e)
    have "settles api (Suc 0) (callProcessQueue s) = (None, snd (processQueue api s))"
      unfolding start pq using Inl
      by (simp add: processQueue_try_def failed_def returned_def)
    then show ?thesis by blast
  next
    case (Inr q)
    show ?thesis
    proof (cases "q = []")
      case True
      have "settles api (Suc 0) (callProcessQueue s) = (None, snd (processQueue api s))"
        unfolding start pq using Inr True
        by (simp add: processQueue_try_def returned_def)
      then show ?thesis by blast
    next
      case False
      obtain n1 where n1: "settles api n1 (nextItem q (0, 0, []) s0)
          = loopExit (processItems api q (0, 0, []) s0)"
        using loop_refines by blast
      have first: "settles api (Suc n1) (callProcessQueue s)
          = loopExit (processItems api q (0, 0, []) s0)"
        unfolding start using Inr False n1 by simp
      obtain r s1 where p: "processItems api q (0, 0, []) s0 = (r, s1)" by fastforce
      show ?thesis
      proof (cases r)
        case (Inl e)
        have "settles api (Suc n1) (callProcessQueue s) = (None, snd (processQueue api s))"
          unfolding first pq using Inr False p Inl
          by (simp add: loopExit_def processQueue_try_def failed_def returned_def)
        then show ?thesis by blast
      next
        case (Inr acc)
        obtain sc fc errs where acc: "acc = (sc, fc, errs)" by (cases acc) auto
        obtain n2 where n2: "settles api n2 (Some (AwaitSyncItems acc), s1)
            = completed acc (updateSyncStatus s1)"
          using after_loop by blast
        have "settles api (Suc n1 + n2) (callProcessQueue s)
            = completed acc (updateSyncStatus s1)"
          unfolding settles_add first using p Inr n2 by (simp add: loopExit_def)
        moreover have "completed acc (updateSyncStatus s1) = (None, snd (processQueue api s))"
          unfolding pq using \<open>offlineQueueDB_getQueueItems (db s0) = Inr q\<close> False p Inr
          by (simp add: acc processQueue_try_def completed_def returned_def Let_def)
        ultimately show ?thesis by metis
      qed
    qed
  qed
qed

lemma run_idle_settle: "run api (s, []) (replicate n (Settle 0)) = (s, [])"
  by (induction n) (simp_all add: run_def)

lemma run_settles:
  "run api (s, [(m, c)]) (replicate n (Settle 0))
     = (case settles api n (Some c, s) of
          (None, s1) \<Rightarrow> (s1, [])
        | (Some c1, s1) \<Rightarrow> (s1, [(m, c1)]))"
proof (induction n arbitrary: c s)
  case 0
  show ?case by (simp add: run_def)
next
  case (Suc n)
  obtain co s1 where st: "settle api c s = (co, s1)" by fastforce
  show ?case
  proof (cases co)
    case None
    have "run api (s, [(m, c)]) (replicate (Suc n) (Settle 0))
        = run api (s1, []) (replicate n (Settle 0))"
      using st None by (simp add: run_def)
    then show ?thesis using st None by (simp add: run_idle_settle)
  next
    case (Some c1)
    have "run api (s, [(m, c)]) (replicate (Suc n) (Settle 0))
        = run api (s1, [(m, c1)]) (replicate n (Settle 0))"
      using st Some by (simp add: run_def)
    then show ?thesis using st Some Suc.IH[of s1 c1] by simp
  qed
qed

lemma uninterrupted_cycle:
  "\<exists>n. run api (s, []) (CallProcessQueue # replicate n (Settle 0)) = (snd (processQueue api s), [])"
proof -
  obtain n where n: "settles api n (callProcessQueue s) = (None, snd (processQueue api s))"
    using cycle_refines by blast
  obtain co s0 where c: "callProcessQueue s = (co, s0)" by fastforce
  have r: "run api (s, []) (CallProcessQueue # acts)
      = run api (case co of None \<Rightarrow> (s0, []) | Some c \<Rightarrow> (s0, [(length (attempts s), c)])) acts"
    for acts
    using c by (cases co) (simp_all add: run_def)
  show ?thesis
  proof (cases co)
    case None
    then have "snd (processQueue api s) = s0" using n c by simp
    then have "run api (s, []) (CallProcessQueue # replicate n (Settle 0)) = (snd (processQueue api s), [])"
      using r[of "replicate n (Settle 0)"] None by (simp add: run_idle_settle)
    then show ?thesis by blast
  next
    case (Some c0)
    have "run api (s, []) (CallProcessQueue # replicate n (Settle 0)) = (snd (processQueue api s), [])"
      unfolding r using Some run_settles[of api s0 "length (attempts s)" c0 n] n c by simp
    then show ?thesis by blast
  qed
qed

end
